theory Spec2Isabelle
  imports Complex_Main "HOL-Library.Word" "HOL-Library.Log_Nat"
begin

section \<open>Storify: client-side file encryption and one-time-code login\<close>

text \<open>
  A shallow embedding of the core of the Storify web application: the binary/text
  codecs of \<^verbatim>\<open>src/lib/encryption.ts\<close>, the upload and download flows of
  \<^verbatim>\<open>FileUpload.tsx\<close> and \<^verbatim>\<open>FileList.tsx\<close>, the client-side \<^verbatim>\<open>authService.sendOtp\<close>
  and the edge function \<^verbatim>\<open>verify-otp-and-login\<close>.

  The program is TypeScript running on a browser and on Deno. What it calls from the
  platform (strings, typed arrays, \<^verbatim>\<open>parseInt\<close>, \<^verbatim>\<open>btoa\<close>, \<^verbatim>\<open>atob\<close>) is modelled
  after ECMA-262 and the HTML Standard; the cipher of the Web Cryptography API and the
  failures of the remote services are parameters of the flows that use them.
\<close>

subsection \<open>Platform values\<close>

text \<open>
  A \<^verbatim>\<open>Uint8Array\<close> is a list of 8-bit words, a JavaScript string the list of its UTF-16
  code units. \<open>js\<close> writes an ASCII literal as such a string.
\<close>

type_synonym byte = "8 word"
type_synonym code_unit = "16 word"
type_synonym jsstring = "code_unit list"

definition js :: "string \<Rightarrow> jsstring" where
  "js s = map of_char s"

text \<open>\<^verbatim>\<open>String.fromCharCode(b)\<close> of an array element, and the store of a code unit
  into a \<^verbatim>\<open>Uint8Array\<close> (ToUint8: modulo 256).\<close>

definition fromCharCode :: "byte \<Rightarrow> code_unit" where
  "fromCharCode b = of_nat (unat b)"

definition uint8_of_code_unit :: "code_unit \<Rightarrow> byte" where
  "uint8_of_code_unit c = of_nat (unat c)"

text \<open>
  The result of \<^verbatim>\<open>parseInt\<close>: \<^verbatim>\<open>NaN\<close> or an integer (the strings parsed here have at
  most two code units, so every value is exact; \<^verbatim>\<open>-0\<close> is read as 0, which is what
  ToUint8 makes of it).
\<close>

datatype js_number = NaN | Num int

definition ToUint8 :: "js_number \<Rightarrow> byte" where
  "ToUint8 v = (case v of NaN \<Rightarrow> 0 | Num n \<Rightarrow> word_of_int n)"

text \<open>An indexed store into a typed array: outside the array it is ignored.\<close>

definition typed_array_set :: "byte list \<Rightarrow> nat \<Rightarrow> js_number \<Rightarrow> byte list" where
  "typed_array_set bytes j v = (if j < length bytes then bytes[j := ToUint8 v] else bytes)"

subsection \<open>Number to string, string to number\<close>

text \<open>A digit of \<^verbatim>\<open>Number.prototype.toString(radix)\<close>: \<^verbatim>\<open>0-9\<close>, then \<^verbatim>\<open>a-z\<close>.\<close>

definition digit_char :: "nat \<Rightarrow> code_unit" where
  "digit_char d = (if d < 10 then of_nat (48 + d) else of_nat (97 + (d - 10)))"

text \<open>\<^verbatim>\<open>n.toString(radix)\<close> for a non-negative integer \<open>n\<close> (below \<open>10^21\<close> for radix 10).\<close>

function number_toString :: "nat \<Rightarrow> nat \<Rightarrow> jsstring" where
  "number_toString radix n =
     (if radix < 2 \<or> n < radix then [digit_char n]
      else number_toString radix (n div radix) @ [digit_char (n mod radix)])"
  by pat_completeness auto
termination
  by (relation "measure snd") auto

declare number_toString.simps [simp del]

text \<open>\<^verbatim>\<open>s.padStart(maxLength, fillString)\<close>.\<close>

definition padStart :: "jsstring \<Rightarrow> nat \<Rightarrow> jsstring \<Rightarrow> jsstring" where
  "padStart s maxLength fillString =
     (if maxLength \<le> length s \<or> fillString = [] then s
      else take (maxLength - length s)
             (concat (replicate (maxLength - length s) fillString)) @ s)"

text \<open>\<^verbatim>\<open>s.substr(start, len)\<close> for a non-negative start.\<close>

definition substr :: "jsstring \<Rightarrow> nat \<Rightarrow> nat \<Rightarrow> jsstring" where
  "substr s start len = take len (drop start s)"

text \<open>
  \<^verbatim>\<open>parseInt(s, 16)\<close> after ECMA-262: leading white space is skipped, a sign is read,
  a prefix \<^verbatim>\<open>0x\<close> or \<^verbatim>\<open>0X\<close> is dropped, the longest run of hexadecimal digits is the
  value, and no digit at all is \<^verbatim>\<open>NaN\<close>.
\<close>

definition is_js_whitespace :: "code_unit \<Rightarrow> bool" where
  "is_js_whitespace c \<longleftrightarrow>
     c \<in> {0x09, 0x0A, 0x0B, 0x0C, 0x0D, 0x20, 0xA0, 0x1680, 0x2028, 0x2029, 0x202F,
          0x205F, 0x3000, 0xFEFF} \<or> (0x2000 \<le> c \<and> c \<le> 0x200A)"

definition hex_digit_value :: "code_unit \<Rightarrow> nat option" where
  "hex_digit_value c =
     (let n = unat c in
      if 48 \<le> n \<and> n \<le> 57 then Some (n - 48)
      else if 97 \<le> n \<and> n \<le> 102 then Some (n - 87)
      else if 65 \<le> n \<and> n \<le> 70 then Some (n - 55)
      else None)"

definition is_hex_digit :: "code_unit \<Rightarrow> bool" where
  "is_hex_digit c \<longleftrightarrow> hex_digit_value c \<noteq> None"

definition hex_value :: "jsstring \<Rightarrow> nat" where
  "hex_value z = foldl (\<lambda>acc c. 16 * acc + the (hex_digit_value c)) 0 z"

definition strip_sign :: "jsstring \<Rightarrow> int \<times> jsstring" where
  "strip_sign s =
     (case s of
        [] \<Rightarrow> (1, s)
      | c # rest \<Rightarrow> if c = 0x2D then (-1, rest) else if c = 0x2B then (1, rest) else (1, s))"

definition strip_hex_prefix :: "jsstring \<Rightarrow> jsstring" where
  "strip_hex_prefix s =
     (case s of
        a # b # rest \<Rightarrow> if a = 0x30 \<and> (b = 0x78 \<or> b = 0x58) then rest else s
      | _ \<Rightarrow> s)"

definition parseInt16 :: "jsstring \<Rightarrow> js_number" where
  "parseInt16 s =
     (let (sign, s1) = strip_sign (dropWhile is_js_whitespace s);
          z = takeWhile is_hex_digit (strip_hex_prefix s1)
      in if z = [] then NaN else Num (sign * int (hex_value z)))"

subsection \<open>The hexadecimal codec (\<^verbatim>\<open>uint8ArrayToHex\<close>, \<^verbatim>\<open>hexToUint8Array\<close>)\<close>

definition uint8ArrayToHex :: "byte list \<Rightarrow> jsstring" where
  "uint8ArrayToHex array =
     concat (map (\<lambda>b. padStart (number_toString 16 (unat b)) 2 (js ''0'')) array)"

text \<open>
  The loop of \<^verbatim>\<open>hexToUint8Array\<close>: \<open>i\<close> runs over the even positions below
  \<^verbatim>\<open>hex.length\<close> and stores \<^verbatim>\<open>parseInt(hex.substr(i, 2), 16)\<close> at \<open>i / 2\<close>.
\<close>

function hex_loop :: "jsstring \<Rightarrow> nat \<Rightarrow> byte list \<Rightarrow> byte list" where
  "hex_loop hex i bytes =
     (if i < length hex
      then hex_loop hex (i + 2) (typed_array_set bytes (i div 2) (parseInt16 (substr hex i 2)))
      else bytes)"
  by pat_completeness auto
termination
  by (relation "measure (\<lambda>(hex, i, bytes). length hex - i)") auto

declare hex_loop.simps [simp del]

text \<open>
  \<^verbatim>\<open>new Uint8Array(hex.length / 2)\<close> truncates a fractional length (ToIndex) and is
  filled with zeros. Nothing in the function raises: it returns an array for every
  string.
\<close>

definition hexToUint8Array :: "jsstring \<Rightarrow> byte list" where
  "hexToUint8Array hex = hex_loop hex 0 (replicate (length hex div 2) 0)"

subsection \<open>Base64 (\<^verbatim>\<open>btoa\<close> and \<^verbatim>\<open>atob\<close> of the HTML Standard)\<close>

datatype dom_exception = InvalidCharacterError | DataError | OperationError | InvalidAccessError

text \<open>The alphabet \<^verbatim>\<open>A-Z a-z 0-9 + /\<close> by position, and the position of a code unit.\<close>

definition b64_char :: "nat \<Rightarrow> code_unit" where
  "b64_char n =
     of_nat (if n < 26 then 65 + n
             else if n < 52 then 97 + (n - 26)
             else if n < 62 then 48 + (n - 52)
             else if n = 62 then 43 else 47)"

definition b64_index :: "code_unit \<Rightarrow> nat option" where
  "b64_index c =
     (let n = unat c in
      if 65 \<le> n \<and> n \<le> 90 then Some (n - 65)
      else if 97 \<le> n \<and> n \<le> 122 then Some (n - 97 + 26)
      else if 48 \<le> n \<and> n \<le> 57 then Some (n - 48 + 52)
      else if n = 43 then Some 62
      else if n = 47 then Some 63
      else None)"

text \<open>Three bytes make four characters; a last group of one or two bytes is padded
  with \<^verbatim>\<open>=\<close> (code unit \<open>0x3D\<close>).\<close>

fun b64_encode :: "nat list \<Rightarrow> jsstring" where
  "b64_encode (a # b # c # rest) =
     [b64_char (a div 4), b64_char ((a mod 4) * 16 + b div 16),
      b64_char ((b mod 16) * 4 + c div 64), b64_char (c mod 64)] @ b64_encode rest"
| "b64_encode [a, b] =
     [b64_char (a div 4), b64_char ((a mod 4) * 16 + b div 16), b64_char ((b mod 16) * 4), 0x3D]"
| "b64_encode [a] = [b64_char (a div 4), b64_char ((a mod 4) * 16), 0x3D, 0x3D]"
| "b64_encode [] = []"

text \<open>\<^verbatim>\<open>btoa\<close> throws on a code unit above \<open>0xFF\<close>.\<close>

definition btoa :: "jsstring \<Rightarrow> dom_exception + jsstring" where
  "btoa s =
     (if list_all (\<lambda>c. c \<le> 0xFF) s then Inr (b64_encode (map unat s))
      else Inl InvalidCharacterError)"

text \<open>
  \<^verbatim>\<open>atob\<close> is the forgiving-base64 decode: ASCII white space is removed; when the
  length is then a multiple of four, one or two \<^verbatim>\<open>=\<close> at the end are removed; a
  length of 1 modulo 4 or a code unit outside the alphabet is a failure; a last group of
  two or three characters gives one or two bytes, its spare bits dropped.
\<close>

definition is_ascii_whitespace :: "code_unit \<Rightarrow> bool" where
  "is_ascii_whitespace c \<longleftrightarrow> c \<in> {0x09, 0x0A, 0x0C, 0x0D, 0x20}"

definition strip_padding :: "jsstring \<Rightarrow> jsstring" where
  "strip_padding d =
     (if length d mod 4 = 0 then
        (if 2 \<le> length d \<and> last d = 0x3D \<and> last (butlast d) = 0x3D then butlast (butlast d)
         else if d \<noteq> [] \<and> last d = 0x3D then butlast d
         else d)
      else d)"

fun b64_decode :: "nat list \<Rightarrow> nat list" where
  "b64_decode (s0 # s1 # s2 # s3 # rest) =
     [s0 * 4 + s1 div 16, (s1 mod 16) * 16 + s2 div 4, (s2 mod 4) * 64 + s3] @ b64_decode rest"
| "b64_decode [s0, s1, s2] = [s0 * 4 + s1 div 16, (s1 mod 16) * 16 + s2 div 4]"
| "b64_decode [s0, s1] = [s0 * 4 + s1 div 16]"
| "b64_decode _ = []"

definition atob :: "jsstring \<Rightarrow> dom_exception + jsstring" where
  "atob data =
     (let d = strip_padding (filter (\<lambda>c. \<not> is_ascii_whitespace c) data) in
      if length d mod 4 = 1 then Inl InvalidCharacterError
      else if \<not> list_all (\<lambda>c. b64_index c \<noteq> None) d then Inl InvalidCharacterError
      else Inr (map of_nat (b64_decode (map (\<lambda>c. the (b64_index c)) d))))"

subsection \<open>The base64 codec (\<^verbatim>\<open>arrayBufferToBase64\<close>, \<^verbatim>\<open>base64ToArrayBuffer\<close>)\<close>

text \<open>
  \<^verbatim>\<open>arrayBufferToBase64\<close> appends \<^verbatim>\<open>String.fromCharCode(bytes[i])\<close> for every index
  and calls \<^verbatim>\<open>btoa\<close>; \<^verbatim>\<open>base64ToArrayBuffer\<close> calls \<^verbatim>\<open>atob\<close> and stores
  \<^verbatim>\<open>binary.charCodeAt(i)\<close> at every index. An exception of \<^verbatim>\<open>btoa\<close> or \<^verbatim>\<open>atob\<close>
  is not caught by either.
\<close>

definition arrayBufferToBase64 :: "byte list \<Rightarrow> dom_exception + jsstring" where
  "arrayBufferToBase64 buffer = btoa (map fromCharCode buffer)"

definition base64ToArrayBuffer :: "jsstring \<Rightarrow> dom_exception + byte list" where
  "base64ToArrayBuffer base64 =
     (case atob base64 of
        Inl e \<Rightarrow> Inl e
      | Inr binary \<Rightarrow> Inr (map uint8_of_code_unit binary))"

subsection \<open>Keys, nonces and the cipher (\<^verbatim>\<open>window.crypto\<close>)\<close>

text \<open>
  A \<^verbatim>\<open>CryptoKey\<close> is its raw bytes and its \<^verbatim>\<open>extractable\<close> flag. Random bytes come
  from an entropy stream that the caller supplies: \<^verbatim>\<open>generateKey\<close> with length 256
  draws 32 bytes, \<^verbatim>\<open>getRandomValues(new Uint8Array(12))\<close> draws 12.
\<close>

record crypto_key =
  key_raw :: "byte list"
  extractable :: bool

definition getRandomValues :: "(nat \<Rightarrow> byte) \<Rightarrow> nat \<Rightarrow> byte list" where
  "getRandomValues entropy n = map entropy [0..<n]"

definition generateEncryptionKey :: "(nat \<Rightarrow> byte) \<Rightarrow> crypto_key" where
  "generateEncryptionKey entropy = \<lparr>key_raw = getRandomValues entropy 32, extractable = True\<rparr>"

definition generateIV :: "(nat \<Rightarrow> byte) \<Rightarrow> byte list" where
  "generateIV entropy = getRandomValues entropy 12"

definition exportKey :: "crypto_key \<Rightarrow> dom_exception + byte list" where
  "exportKey key = (if extractable key then Inr (key_raw key) else Inl InvalidAccessError)"

definition importKey :: "byte list \<Rightarrow> dom_exception + crypto_key" where
  "importKey keyData =
     (if length keyData \<in> {16, 24, 32} then Inr \<lparr>key_raw = keyData, extractable = True\<rparr>
      else Inl DataError)"

text \<open>
  AES-GCM itself is native code of the browser. It is a parameter of the model: a pair
  of functions of the raw key, the nonce and the data, each returning bytes or a
  \<^verbatim>\<open>DOMException\<close>.
\<close>

record aes_gcm =
  gcm_encrypt :: "byte list \<Rightarrow> byte list \<Rightarrow> byte list \<Rightarrow> dom_exception + byte list"
  gcm_decrypt :: "byte list \<Rightarrow> byte list \<Rightarrow> byte list \<Rightarrow> dom_exception + byte list"

definition encryptFile ::
    "aes_gcm \<Rightarrow> byte list \<Rightarrow> crypto_key \<Rightarrow> byte list \<Rightarrow> dom_exception + byte list" where
  "encryptFile gcm fileData key iv = gcm_encrypt gcm (key_raw key) iv fileData"

definition decryptFile ::
    "aes_gcm \<Rightarrow> byte list \<Rightarrow> crypto_key \<Rightarrow> byte list \<Rightarrow> dom_exception + byte list" where
  "decryptFile gcm encryptedData key iv = gcm_decrypt gcm (key_raw key) iv encryptedData"

text \<open>
  What the flows rely on from AES-GCM with a 256-bit key, a 96-bit nonce and the default
  128-bit tag: encryption of up to \<open>2^36 - 32\<close> bytes succeeds, and whatever encryption
  returns is 16 bytes longer than the plaintext and decrypts to it under the same key and
  nonce.
\<close>

definition aes_gcm_contract :: "aes_gcm \<Rightarrow> bool" where
  "aes_gcm_contract gcm \<longleftrightarrow>
     (\<forall>k iv p. length k = 32 \<and> length iv = 12 \<and> length p \<le> 2 ^ 36 - 32
        \<longrightarrow> (\<exists>c. gcm_encrypt gcm k iv p = Inr c)) \<and>
     (\<forall>k iv p c. gcm_encrypt gcm k iv p = Inr c
        \<longrightarrow> length c = length p + 16 \<and> gcm_decrypt gcm k iv c = Inr p)"

subsection \<open>The remote services\<close>

text \<open>
  The Supabase project: the storage bucket \<^verbatim>\<open>encrypted-files\<close>, the tables
  \<^verbatim>\<open>files\<close>, \<^verbatim>\<open>otp_verifications\<close> and \<^verbatim>\<open>user_credentials\<close> of the migrations,
  the accounts of the identity system, and the mails handed to \<^verbatim>\<open>send-otp-email\<close>.
  Times are milliseconds since the epoch.
\<close>

record file_row =
  file_id :: jsstring
  file_user_id :: jsstring
  filename :: jsstring
  original_filename :: jsstring
  storage_path :: jsstring
  file_size :: nat
  mime_type :: "jsstring option"
  encrypted_key :: jsstring
  iv :: jsstring
  uploaded_at :: int

record otp_row =
  otp_id :: nat
  otp_email :: jsstring
  otp_code :: jsstring
  otp_password :: "jsstring option"
  expires_at :: int
  verified :: bool
  created_at :: int

record credential_row =
  cred_email :: jsstring
  password_hash :: jsstring

record auth_user =
  user_id :: jsstring
  user_email :: jsstring
  user_password :: "jsstring option"
  email_confirmed :: bool

record backend =
  storage :: "jsstring \<rightharpoonup> byte list"
  files :: "file_row list"
  otp_verifications :: "otp_row list"
  user_credentials :: "credential_row list"
  auth_users :: "auth_user list"
  sent_mail :: "(jsstring \<times> jsstring) list"

text \<open>
  A call to a service returns \<^verbatim>\<open>{ data, error }\<close>. Whether a call fails for a reason
  outside the program (network, policy) is an input of each flow; the failures the
  schema itself causes are computed.
\<close>

datatype error = Dom dom_exception | StorageError | PostgrestError | FunctionsError | AuthError

text \<open>\<^verbatim>\<open>storage.from('encrypted-files').upload(path, blob)\<close> without \<^verbatim>\<open>upsert\<close>: an
  object already at the path is an error.\<close>

definition storage_upload :: "bool \<Rightarrow> jsstring \<Rightarrow> byte list \<Rightarrow> backend \<Rightarrow> error + backend" where
  "storage_upload fails path blob s =
     (if fails \<or> path \<in> dom (storage s) then Inl StorageError
      else Inr (s\<lparr>storage := (storage s)(path \<mapsto> blob)\<rparr>))"

definition storage_download :: "bool \<Rightarrow> jsstring \<Rightarrow> backend \<Rightarrow> error + byte list" where
  "storage_download fails path s =
     (if fails then Inl StorageError
      else case storage s path of None \<Rightarrow> Inl StorageError | Some blob \<Rightarrow> Inr blob)"

definition insert_file :: "bool \<Rightarrow> file_row \<Rightarrow> backend \<Rightarrow> error + backend" where
  "insert_file fails row s =
     (if fails then Inl PostgrestError else Inr (s\<lparr>files := files s @ [row]\<rparr>))"

subsection \<open>Upload (\<^verbatim>\<open>FileUpload.tsx\<close>)\<close>

text \<open>A browser \<^verbatim>\<open>File\<close>: its name, its MIME type and its bytes; \<^verbatim>\<open>file.size\<close> is the
  number of bytes.\<close>

record browser_file =
  file_name :: jsstring
  file_type :: jsstring
  file_data :: "byte list"

definition size_of :: "browser_file \<Rightarrow> nat" where
  "size_of f = length (file_data f)"

text \<open>The state of the component. Of \<^verbatim>\<open>uploadStatus\<close> the model keeps the field
  \<^verbatim>\<open>status\<close> (\<open>Failed\<close> stands for \<^verbatim>\<open>'error'\<close>) and leaves out the progress bar
  and the message line.\<close>

datatype status = Idle | Encrypting | Uploading | Success | Failed

record upload_state =
  selectedFile :: "browser_file option"
  uploadStatus :: status

text \<open>What a handler does besides changing the component state, in the order it does
  it.\<close>

datatype event =
    Toast jsstring
  | GenerateKey
  | GenerateIV
  | ReadFile
  | Encrypt
  | ExportKey
  | StorageUpload jsstring
  | InsertFile
  | UploadComplete

text \<open>\<^verbatim>\<open>handleFileSelect\<close>: the argument is \<^verbatim>\<open>e.target.files?.[0]\<close>.\<close>

definition handleFileSelect :: "browser_file option \<Rightarrow> upload_state \<Rightarrow> upload_state \<times> event list" where
  "handleFileSelect picked st =
     (case picked of
        None \<Rightarrow> (st, [])
      | Some f \<Rightarrow>
          if size_of f > 50 * 1024 * 1024 then (st, [Toast (js ''File too large'')])
          else (st\<lparr>selectedFile := Some f, uploadStatus := Idle\<rparr>, []))"

text \<open>\<^verbatim>\<open>name.split('.').pop() || ''\<close>: the part after the last dot, the whole name
  when it has no dot.\<close>

fun split_on :: "code_unit \<Rightarrow> jsstring \<Rightarrow> jsstring list" where
  "split_on sep [] = [[]]"
| "split_on sep (c # cs) =
     (if c = sep then [] # split_on sep cs
      else (c # hd (split_on sep cs)) # tl (split_on sep cs))"

definition fileExtension :: "jsstring \<Rightarrow> jsstring" where
  "fileExtension name = last (split_on 0x2E name)"

text \<open>
  What \<^verbatim>\<open>uploadFile\<close> takes from outside: the entropy of the key and of the nonce, the
  result of \<^verbatim>\<open>crypto.randomUUID()\<close>, the id and the time the database gives the new
  row, and whether the two remote calls fail.
\<close>

record upload_env =
  key_entropy :: "nat \<Rightarrow> byte"
  iv_entropy :: "nat \<Rightarrow> byte"
  random_uuid :: jsstring
  new_file_id :: jsstring
  upload_db_now :: int
  storage_upload_fails :: bool
  insert_file_fails :: bool

definition upload_failed :: "upload_state \<Rightarrow> upload_state" where
  "upload_failed st = st\<lparr>uploadStatus := Failed\<rparr>"

text \<open>
  \<^verbatim>\<open>uploadFile\<close>. The argument \<open>user\<close> is the id of the signed-in user, if any. Every
  \<^verbatim>\<open>throw\<close> ends in the \<^verbatim>\<open>catch\<close> block: status \<^verbatim>\<open>error\<close> and a toast; what was done
  before stays done.
\<close>

definition uploadFile ::
    "aes_gcm \<Rightarrow> upload_env \<Rightarrow> jsstring option \<Rightarrow> upload_state \<Rightarrow> backend
      \<Rightarrow> upload_state \<times> backend \<times> event list" where
  "uploadFile gcm env user st s =
     (case (selectedFile st, user) of
        (Some f, Some uid) \<Rightarrow>
          (let encryptionKey = generateEncryptionKey (key_entropy env);
               nonce = generateIV (iv_entropy env);
               fileData = file_data f;
               done1 = [GenerateKey, GenerateIV, ReadFile, Encrypt]
           in case encryptFile gcm fileData encryptionKey nonce of
                Inl e \<Rightarrow> (upload_failed st, s, done1 @ [Toast (js ''Upload failed'')])
              | Inr encryptedData \<Rightarrow>
           (case exportKey encryptionKey of
                Inl e \<Rightarrow> (upload_failed st, s, done1 @ [ExportKey, Toast (js ''Upload failed'')])
              | Inr exportedKey \<Rightarrow>
           (case arrayBufferToBase64 exportedKey of
                Inl e \<Rightarrow> (upload_failed st, s, done1 @ [ExportKey, Toast (js ''Upload failed'')])
              | Inr keyBase64 \<Rightarrow>
           (let ivHex = uint8ArrayToHex nonce;
                name = random_uuid env @ js ''.'' @ fileExtension (file_name f);
                filePath = uid @ js ''/'' @ name;
                done2 = done1 @ [ExportKey, StorageUpload filePath]
            in case storage_upload (storage_upload_fails env) filePath encryptedData s of
                 Inl e \<Rightarrow> (upload_failed st, s, done2 @ [Toast (js ''Upload failed'')])
               | Inr s1 \<Rightarrow>
            (case insert_file (insert_file_fails env)
                    \<lparr>file_id = new_file_id env, file_user_id = uid, filename = name,
                     original_filename = file_name f, storage_path = filePath,
                     file_size = size_of f, mime_type = Some (file_type f),
                     encrypted_key = keyBase64, iv = ivHex,
                     uploaded_at = upload_db_now env\<rparr> s1 of
                 Inl e \<Rightarrow> (upload_failed st, s1, done2 @ [InsertFile, Toast (js ''Upload failed'')])
               | Inr s2 \<Rightarrow>
                   (st\<lparr>uploadStatus := Success\<rparr>,
                    s2,
                    done2 @ [InsertFile, Toast (js ''Upload complete''), UploadComplete]))))))
      | _ \<Rightarrow> (st, s, []))"

subsection \<open>Download (\<^verbatim>\<open>FileList.tsx\<close>)\<close>

record download =
  download_data :: "byte list"
  download_type :: jsstring
  download_name :: jsstring

text \<open>\<^verbatim>\<open>downloadFile\<close>: the first exception is the result (it ends in the toast
  "Download failed"); otherwise the decrypted bytes are handed to the browser with the
  original name and the MIME type.\<close>

definition downloadFile :: "aes_gcm \<Rightarrow> bool \<Rightarrow> file_row \<Rightarrow> backend \<Rightarrow> error + download" where
  "downloadFile gcm download_fails row s =
     (case storage_download download_fails (storage_path row) s of
        Inl e \<Rightarrow> Inl e
      | Inr encryptedArrayBuffer \<Rightarrow>
     (case base64ToArrayBuffer (encrypted_key row) of
        Inl e \<Rightarrow> Inl (Dom e)
      | Inr keyArrayBuffer \<Rightarrow>
     (case importKey keyArrayBuffer of
        Inl e \<Rightarrow> Inl (Dom e)
      | Inr decryptionKey \<Rightarrow>
     (case decryptFile gcm encryptedArrayBuffer decryptionKey (hexToUint8Array (iv row)) of
        Inl e \<Rightarrow> Inl (Dom e)
      | Inr decryptedData \<Rightarrow>
          Inr \<lparr>download_data = decryptedData,
               download_type =
                 (case mime_type row of
                    None \<Rightarrow> js ''application/octet-stream''
                  | Some t \<Rightarrow> if t = [] then js ''application/octet-stream'' else t),
               download_name = original_filename row\<rparr>))))"

subsection \<open>Tables of the one-time-code login\<close>

text \<open>\<^verbatim>\<open>.select('password_hash').eq('email', email).maybeSingle()\<close>: both callers read
  only \<^verbatim>\<open>data\<close>, which is \<^verbatim>\<open>null\<close> when the call fails.\<close>

definition select_credential :: "bool \<Rightarrow> jsstring \<Rightarrow> backend \<Rightarrow> credential_row option" where
  "select_credential fails email s =
     (if fails then None else find (\<lambda>c. cred_email c = email) (user_credentials s))"

text \<open>The column \<^verbatim>\<open>email\<close> of \<^verbatim>\<open>user_credentials\<close> is \<^verbatim>\<open>UNIQUE\<close>.\<close>

definition insert_credential :: "bool \<Rightarrow> credential_row \<Rightarrow> backend \<Rightarrow> error + backend" where
  "insert_credential fails row s =
     (if fails \<or> cred_email row \<in> cred_email ` set (user_credentials s) then Inl PostgrestError
      else Inr (s\<lparr>user_credentials := user_credentials s @ [row]\<rparr>))"

definition insert_otp :: "bool \<Rightarrow> otp_row \<Rightarrow> backend \<Rightarrow> error + backend" where
  "insert_otp fails row s =
     (if fails then Inl PostgrestError
      else Inr (s\<lparr>otp_verifications := otp_verifications s @ [row]\<rparr>))"

text \<open>\<^verbatim>\<open>functions.invoke('send-otp-email', { body: { email, otp } })\<close>.\<close>

definition send_otp_email :: "bool \<Rightarrow> jsstring \<Rightarrow> jsstring \<Rightarrow> backend \<Rightarrow> error + backend" where
  "send_otp_email fails email otp s =
     (if fails then Inl FunctionsError else Inr (s\<lparr>sent_mail := sent_mail s @ [(email, otp)]\<rparr>))"

subsection \<open>Requesting a code (\<^verbatim>\<open>authService.sendOtp\<close>)\<close>

text \<open>
  The numbers of the program are binary64, and every arithmetic operation returns the
  binary64 number nearest to the exact result, the one with the even significand when
  two are equally near. A number is modelled by the real it denotes. \<open>binade x\<close> is
  the exponent \<open>e\<close> with \<open>2^e \<le> x < 2^(e+1)\<close>, \<open>ulp x\<close> the distance between
  neighbouring binary64 numbers there (53 significant bits; below \<open>2^-1022\<close> the
  subnormal spacing \<open>2^-1074\<close>), and \<open>binary64 x\<close> the rounded value of \<open>x\<close>.
  Overflow to infinity, beyond \<open>2^1024\<close>, is not modelled; nothing here comes near it.
\<close>

definition round_half_even :: "real \<Rightarrow> int" where
  "round_half_even y =
     (let f = \<lfloor>y\<rfloor>; d = y - of_int f
      in if d < 1/2 then f else if 1/2 < d then f + 1 else if even f then f else f + 1)"

definition binade :: "real \<Rightarrow> int" where
  "binade x = (if 1 \<le> x then bitlen \<lfloor>x\<rfloor> - 1 else - bitlen (\<lceil>1 / x\<rceil> - 1))"

definition ulp :: "real \<Rightarrow> real" where
  "ulp x = 2 powi (max (binade x) (- 1022) - 52)"

definition binary64 :: "real \<Rightarrow> real" where
  "binary64 x =
     (if x = 0 then 0
      else sgn x * (ulp \<bar>x\<bar> * of_int (round_half_even (\<bar>x\<bar> / ulp \<bar>x\<bar>))))"

text \<open>
  \<^verbatim>\<open>Math.floor(100000 + Math.random() * 900000).toString()\<close>, as a function of the
  outcome \<open>r\<close> of \<^verbatim>\<open>Math.random()\<close>: a binary64 number with \<open>0 \<le> r < 1\<close>. The
  product and the sum are rounded; \<^verbatim>\<open>Math.floor\<close> is exact.
\<close>

definition generate_otp :: "real \<Rightarrow> jsstring" where
  "generate_otp r = number_toString 10 (nat \<lfloor>binary64 (100000 + binary64 (r * 900000))\<rfloor>)"

text \<open>
  What \<^verbatim>\<open>sendOtp\<close> takes from outside: the outcome of \<^verbatim>\<open>Math.random()\<close> for the code,
  the password string the two other calls of \<^verbatim>\<open>Math.random()\<close> produce, \<^verbatim>\<open>Date.now()\<close>,
  the id and creation time the database gives the new row, and whether each remote call
  fails.
\<close>

record send_env =
  otp_random :: real
  generated_password :: jsstring
  client_now :: int
  otp_db_now :: int
  new_otp_id :: nat
  send_cred_select_fails :: bool
  otp_insert_fails :: bool
  cred_insert_fails :: bool
  send_email_fails :: bool

text \<open>The result is the \<^verbatim>\<open>error\<close> field of what \<^verbatim>\<open>sendOtp\<close> returns (\<open>None\<close> for
  \<^verbatim>\<open>null\<close>) and the state of the services afterwards.\<close>

definition sendOtp :: "send_env \<Rightarrow> jsstring \<Rightarrow> backend \<Rightarrow> error option \<times> backend" where
  "sendOtp env email s =
     (let otp = generate_otp (otp_random env);
          existingCred = select_credential (send_cred_select_fails env) email s;
          password =
            (case existingCred of
               None \<Rightarrow> generated_password env
             | Some c \<Rightarrow> if password_hash c = [] then generated_password env else password_hash c);
          expiresAt = client_now env + 10 * 60 * 1000
      in case insert_otp (otp_insert_fails env)
                \<lparr>otp_id = new_otp_id env, otp_email = email, otp_code = otp,
                 otp_password = Some password, expires_at = expiresAt, verified = False,
                 created_at = otp_db_now env\<rparr> s of
           Inl dbError \<Rightarrow> (Some dbError, s)
         | Inr s1 \<Rightarrow>
             (case (if existingCred = None
                    then insert_credential (cred_insert_fails env)
                           \<lparr>cred_email = email, password_hash = password\<rparr> s1
                    else Inr s1) of
                Inl credError \<Rightarrow> (Some credError, s1)
              | Inr s2 \<Rightarrow>
                  (case send_otp_email (send_email_fails env) email otp s2 of
                     Inl emailError \<Rightarrow> (Some emailError, s2)
                   | Inr s3 \<Rightarrow> (None, s3))))"

subsection \<open>Verifying a code (the edge function \<^verbatim>\<open>verify-otp-and-login\<close>)\<close>

text \<open>A request is \<^verbatim>\<open>OPTIONS\<close> or a call whose body \<^verbatim>\<open>req.json()\<close> either rejects
  (with a message) or reads as an email and a code.\<close>

datatype request = OPTIONS | Call "jsstring + jsstring \<times> jsstring"

datatype body = NoBody | ErrorBody jsstring | SuccessBody jsstring

record response =
  resp_status :: nat
  resp_body :: body

record verify_env =
  server_now :: int
  new_user_id :: jsstring
  otp_select_fails :: bool
  otp_update_fails :: bool
  verify_cred_select_fails :: bool
  list_users_fails :: bool
  update_user_fails :: bool
  create_user_fails :: bool

text \<open>\<^verbatim>\<open>.order("created_at", { ascending: false }).limit(1).maybeSingle()\<close>: the row
  created last, if there is any. Among rows created at the same instant the database is
  free to choose; the model takes the one inserted last.\<close>

fun latest :: "otp_row list \<Rightarrow> otp_row option" where
  "latest [] = None"
| "latest (r # rs) =
     (case latest rs of
        None \<Rightarrow> Some r
      | Some r' \<Rightarrow> if created_at r \<le> created_at r' then Some r' else Some r)"

definition otp_matches :: "jsstring \<Rightarrow> jsstring \<Rightarrow> int \<Rightarrow> otp_row \<Rightarrow> bool" where
  "otp_matches email otp now r \<longleftrightarrow>
     otp_email r = email \<and> otp_code r = otp \<and> verified r = False \<and> expires_at r > now"

text \<open>The handler treats a failed query and an empty result alike.\<close>

definition select_otp :: "bool \<Rightarrow> jsstring \<Rightarrow> jsstring \<Rightarrow> int \<Rightarrow> backend \<Rightarrow> otp_row option" where
  "select_otp fails email otp now s =
     (if fails then None else latest (filter (otp_matches email otp now) (otp_verifications s)))"

definition mark_verified :: "bool \<Rightarrow> nat \<Rightarrow> backend \<Rightarrow> backend" where
  "mark_verified fails rid s =
     (if fails then s
      else s\<lparr>otp_verifications :=
               map (\<lambda>r. if otp_id r = rid then r\<lparr>verified := True\<rparr> else r)
                 (otp_verifications s)\<rparr>)"

text \<open>\<^verbatim>\<open>auth.admin.listUsers()\<close> returns the first page of accounts (50 by default), and
  no account when it fails.\<close>

definition listUsers :: "bool \<Rightarrow> backend \<Rightarrow> auth_user list" where
  "listUsers fails s = (if fails then [] else take 50 (auth_users s))"

definition updateUserById :: "bool \<Rightarrow> jsstring \<Rightarrow> jsstring option \<Rightarrow> backend \<Rightarrow> backend" where
  "updateUserById fails uid password s =
     (if fails then s
      else s\<lparr>auth_users :=
               map (\<lambda>u. if user_id u = uid then u\<lparr>user_password := password\<rparr> else u)
                 (auth_users s)\<rparr>)"

definition createUser ::
    "bool \<Rightarrow> jsstring \<Rightarrow> jsstring \<Rightarrow> jsstring option \<Rightarrow> backend \<Rightarrow> backend" where
  "createUser fails uid email password s =
     (if fails \<or> email \<in> user_email ` set (auth_users s) then s
      else s\<lparr>auth_users := auth_users s @
               [\<lparr>user_id = uid, user_email = email, user_password = password,
                 email_confirmed = True\<rparr>]\<rparr>)"

definition invalid_or_expired :: response where
  "invalid_or_expired = \<lparr>resp_status = 400, resp_body = ErrorBody (js ''Invalid or expired OTP'')\<rparr>"

definition otp_verified :: response where
  "otp_verified =
     \<lparr>resp_status = 200,
      resp_body = SuccessBody (js ''OTP verified, please sign in with your credentials'')\<rparr>"

text \<open>
  The handler. After the row is found, the results of the update, of the credential
  query and of the three calls to the identity system are awaited and not looked at.
\<close>

definition verify_otp_and_login :: "verify_env \<Rightarrow> request \<Rightarrow> backend \<Rightarrow> response \<times> backend" where
  "verify_otp_and_login env req s =
     (case req of
        OPTIONS \<Rightarrow> (\<lparr>resp_status = 200, resp_body = NoBody\<rparr>, s)
      | Call (Inl msg) \<Rightarrow> (\<lparr>resp_status = 500, resp_body = ErrorBody msg\<rparr>, s)
      | Call (Inr (email, otp)) \<Rightarrow>
          (case select_otp (otp_select_fails env) email otp (server_now env) s of
             None \<Rightarrow> (invalid_or_expired, s)
           | Some otpData \<Rightarrow>
               (let s1 = mark_verified (otp_update_fails env) (otp_id otpData) s;
                    credData = select_credential (verify_cred_select_fails env) email s1;
                    password =
                      (case credData of
                         None \<Rightarrow> otp_password otpData
                       | Some c \<Rightarrow>
                           if password_hash c = [] then otp_password otpData
                           else Some (password_hash c));
                    users = listUsers (list_users_fails env) s1;
                    existingUser = find (\<lambda>u. user_email u = email) users;
                    s2 = (case existingUser of
                            Some u \<Rightarrow>
                              updateUserById (update_user_fails env) (user_id u) password s1
                          | None \<Rightarrow>
                              createUser (create_user_fails env) (new_user_id env) email
                                password s1)
                in (otp_verified, s2))))"

subsection \<open>Auxiliary definitions\<close>

text \<open>The 6-bit groups that \<open>b64_encode\<close> writes, before they become characters.\<close>

fun b64_sextets :: "nat list \<Rightarrow> nat list" where
  "b64_sextets (a # b # c # rest) =
     [a div 4, (a mod 4) * 16 + b div 16, (b mod 16) * 4 + c div 64, c mod 64] @ b64_sextets rest"
| "b64_sextets [a, b] = [a div 4, (a mod 4) * 16 + b div 16, (b mod 16) * 4]"
| "b64_sextets [a] = [a div 4, (a mod 4) * 16]"
| "b64_sextets [] = []"

text \<open>The code units \<^verbatim>\<open>0\<close> to \<^verbatim>\<open>9\<close>.\<close>

definition is_decimal_digit :: "code_unit \<Rightarrow> bool" where
  "is_decimal_digit c \<longleftrightarrow> 0x30 \<le> c \<and> c \<le> 0x39"

subsection \<open>Upload: what a completed upload writes\<close>

definition upload_path :: "upload_env \<Rightarrow> jsstring \<Rightarrow> browser_file \<Rightarrow> jsstring" where
  "upload_path env uid f = uid @ js ''/'' @ random_uuid env @ js ''.'' @ fileExtension (file_name f)"

definition uploaded_row :: "upload_env \<Rightarrow> jsstring \<Rightarrow> browser_file \<Rightarrow> jsstring \<Rightarrow> file_row" where
  "uploaded_row env uid f keyBase64 =
     \<lparr>file_id = new_file_id env, file_user_id = uid,
      filename = random_uuid env @ js ''.'' @ fileExtension (file_name f),
      original_filename = file_name f, storage_path = upload_path env uid f,
      file_size = size_of f, mime_type = Some (file_type f),
      encrypted_key = keyBase64, iv = uint8ArrayToHex (generateIV (iv_entropy env)),
      uploaded_at = upload_db_now env\<rparr>"

subsection \<open>Requesting a code: the row that is written\<close>

definition issued_row :: "send_env \<Rightarrow> jsstring \<Rightarrow> jsstring \<Rightarrow> otp_row" where
  "issued_row env email password =
     \<lparr>otp_id = new_otp_id env, otp_email = email, otp_code = generate_otp (otp_random env),
      otp_password = Some password, expires_at = client_now env + 10 * 60 * 1000,
      verified = False, created_at = otp_db_now env\<rparr>"

subsection \<open>Concrete instances\<close>

text \<open>
  A stand-in for the cipher that meets \<open>aes_gcm_contract\<close> (it appends a constant
  16-byte tag and is no cipher), an empty project, a component just mounted, a 10-byte
  and a 51 MiB file, and an upload in which nothing fails.
\<close>

definition tagging_cipher :: aes_gcm where
  "tagging_cipher =
     \<lparr>gcm_encrypt = (\<lambda>k nonce p. Inr (p @ replicate 16 0)),
      gcm_decrypt = (\<lambda>k nonce c.
         if 16 \<le> length c \<and> drop (length c - 16) c = replicate 16 0
         then Inr (take (length c - 16) c) else Inl OperationError)\<rparr>"

definition empty_backend :: backend where
  "empty_backend =
     \<lparr>storage = Map.empty, files = [], otp_verifications = [], user_credentials = [],
      auth_users = [], sent_mail = []\<rparr>"

definition fresh_upload :: upload_state where
  "fresh_upload = \<lparr>selectedFile = None, uploadStatus = Idle\<rparr>"

definition ten_bytes :: browser_file where
  "ten_bytes = \<lparr>file_name = js ''a.txt'', file_type = js ''text/plain'',
                 file_data = [1, 2, 3, 4, 5, 6, 7, 8, 9, 10]\<rparr>"

definition quiet_upload :: upload_env where
  "quiet_upload =
     \<lparr>key_entropy = (\<lambda>i. of_nat (7 * i + 1)), iv_entropy = (\<lambda>i. of_nat (3 * i)),
      random_uuid = js ''u1'', new_file_id = js ''f1'', upload_db_now = 0,
      storage_upload_fails = False, insert_file_fails = False\<rparr>"

definition big_file :: browser_file where
  "big_file = \<lparr>file_name = js ''big.bin'', file_type = [],
                file_data = replicate (51 * 1024 * 1024) 0\<rparr>"

text \<open>
  For the login: a request for a code whose random outcome is \<open>1/2\<close> (the code
  550000), the same with a failing mail dispatch, a verification in which no call fails
  and one in which every call after the query fails, the project after one and after
  two such requests for the same email, and the row such a request writes.
\<close>

definition alice :: jsstring where
  "alice = js ''a@x.com''"

definition request_at :: "int \<Rightarrow> nat \<Rightarrow> send_env" where
  "request_at t i =
     \<lparr>otp_random = 1/2, generated_password = js ''pw'', client_now = t, otp_db_now = t,
      new_otp_id = i, send_cred_select_fails = False, otp_insert_fails = False,
      cred_insert_fails = False, send_email_fails = False\<rparr>"

definition undelivered :: send_env where
  "undelivered = (request_at 0 1)\<lparr>send_email_fails := True\<rparr>"

definition verify_at :: "int \<Rightarrow> verify_env" where
  "verify_at t =
     \<lparr>server_now = t, new_user_id = js ''u1'', otp_select_fails = False,
      otp_update_fails = False, verify_cred_select_fails = False, list_users_fails = False,
      update_user_fails = False, create_user_fails = False\<rparr>"

definition failing_verify :: verify_env where
  "failing_verify =
     \<lparr>server_now = 100000, new_user_id = js ''u1'', otp_select_fails = False,
      otp_update_fails = True, verify_cred_select_fails = True, list_users_fails = True,
      update_user_fails = True, create_user_fails = True\<rparr>"

definition one_request :: backend where
  "one_request = snd (sendOtp (request_at 0 1) alice empty_backend)"

definition two_requests :: backend where
  "two_requests = snd (sendOtp (request_at 300000 2) alice one_request)"

definition code_row :: "nat \<Rightarrow> int \<Rightarrow> otp_row" where
  "code_row i t =
     \<lparr>otp_id = i, otp_email = alice, otp_code = js ''550000'', otp_password = Some (js ''pw''),
      expires_at = t + 600000, verified = False, created_at = t\<rparr>"

section \<open>Properties\<close>

subsection \<open>Hexadecimal digits\<close>

lemma unat_code_unit: "n < 65536 \<Longrightarrow> unat (of_nat n :: code_unit) = n"
  by (simp add: unat_of_nat)

lemma unat_digit_char: "d < 16 \<Longrightarrow> unat (digit_char d) = (if d < 10 then 48 + d else 87 + d)"
  unfolding digit_char_def by (simp only: unat_code_unit split: if_splits) (simp add: unat_of_nat)

lemma hex_digit_value_digit_char: "d < 16 \<Longrightarrow> hex_digit_value (digit_char d) = Some d"
  by (auto simp: hex_digit_value_def unat_digit_char Let_def)

lemma digit_char_not_special:
  assumes "d < 16"
  shows "\<not> is_js_whitespace (digit_char d)" "digit_char d \<noteq> 0x2D" "digit_char d \<noteq> 0x2B"
    "digit_char d \<noteq> 0x78" "digit_char d \<noteq> 0x58" "is_hex_digit (digit_char d)"
proof -
  have u: "unat (digit_char d) = (if d < 10 then 48 + d else 87 + d)"
    using assms by (simp add: unat_digit_char)
  have neq: "digit_char d \<noteq> c" if "unat c < 48 \<or> unat c > 102 \<or> (57 < unat c \<and> unat c < 97)" for c
    using that u assms by (auto split: if_splits)
  show "\<not> is_js_whitespace (digit_char d)"
    unfolding is_js_whitespace_def using u assms
    by (auto simp: word_le_nat_alt dest!: arg_cong[where f=unat] split: if_splits)
  show "digit_char d \<noteq> 0x2D" "digit_char d \<noteq> 0x2B" "digit_char d \<noteq> 0x78" "digit_char d \<noteq> 0x58"
    by (rule neq; simp)+
  show "is_hex_digit (digit_char d)"
    using assms by (simp add: is_hex_digit_def hex_digit_value_digit_char)
qed

lemma hex_of_byte:
  fixes b :: byte
  shows "padStart (number_toString 16 (unat b)) 2 (js ''0'')
         = [digit_char (unat b div 16), digit_char (unat b mod 16)]"
proof -
  have lt: "unat b < 256" using unsigned_less[of b, where ?'a = nat] by simp
  show ?thesis
  proof (cases "unat b < 16")
    case True
    then show ?thesis
      by (simp add: number_toString.simps[of 16 "unat b"] padStart_def js_def digit_char_def)
  next
    case False
    with lt have "unat b div 16 < 16" by simp
    with False show ?thesis
      by (simp add: number_toString.simps[of 16 "unat b"]
          number_toString.simps[of 16 "unat b div 16"] padStart_def)
  qed
qed

lemma parseInt16_two_digits:
  assumes "h < 16" "l < 16"
  shows "parseInt16 [digit_char h, digit_char l] = Num (int (16 * h + l))"
  using assms digit_char_not_special[OF assms(1)] digit_char_not_special[OF assms(2)]
  by (simp add: parseInt16_def strip_sign_def strip_hex_prefix_def hex_value_def
      hex_digit_value_digit_char)

lemma ToUint8_unat: "ToUint8 (Num (int (unat (b::byte)))) = b"
  by (simp add: ToUint8_def)

lemma parse_hex_of_byte:
  "ToUint8 (parseInt16 (padStart (number_toString 16 (unat (b::byte))) 2 (js ''0''))) = b"
proof -
  have lt: "unat b < 256" using unsigned_less[of b, where ?'a = nat] by simp
  then have "unat b div 16 < 16" "unat b mod 16 < 16" by simp_all
  then show ?thesis
    by (simp add: hex_of_byte parseInt16_two_digits ToUint8_def)
qed


lemma length_uint8ArrayToHex: "length (uint8ArrayToHex xs) = 2 * length xs"
  by (induction xs) (simp_all add: uint8ArrayToHex_def hex_of_byte)

lemma substr_uint8ArrayToHex:
  "k < length xs \<Longrightarrow> substr (uint8ArrayToHex xs) (2 * k) 2
     = padStart (number_toString 16 (unat (xs ! k))) 2 (js ''0'')"
proof (induction xs arbitrary: k)
  case Nil then show ?case by simp
next
  case (Cons x xs)
  show ?case
  proof (cases k)
    case 0
    then show ?thesis by (simp add: substr_def uint8ArrayToHex_def hex_of_byte)
  next
    case (Suc j)
    with Cons.prems have "j < length xs" by simp
    from Cons.IH[OF this] Suc show ?thesis
      by (simp add: substr_def uint8ArrayToHex_def hex_of_byte)
  qed
qed

lemma hex_loop_invariant:
  assumes "length bytes = length xs" "k \<le> length xs"
  shows "hex_loop (uint8ArrayToHex xs) (2 * k) bytes = take k bytes @ drop k xs"
  using assms
proof (induction "length xs - k" arbitrary: k bytes)
  case 0
  then show ?case
    by (subst hex_loop.simps) (simp add: length_uint8ArrayToHex)
next
  case (Suc n)
  then have k: "k < length xs" by simp
  have step: "typed_array_set bytes k (parseInt16 (substr (uint8ArrayToHex xs) (2 * k) 2))
      = bytes[k := xs ! k]"
    using k Suc.prems by (simp add: typed_array_set_def substr_uint8ArrayToHex parse_hex_of_byte)
  have "hex_loop (uint8ArrayToHex xs) (2 * k) bytes
      = hex_loop (uint8ArrayToHex xs) (2 * Suc k) (bytes[k := xs ! k])"
    using k by (subst hex_loop.simps) (simp add: length_uint8ArrayToHex step)
  also have "\<dots> = take (Suc k) (bytes[k := xs ! k]) @ drop (Suc k) xs"
    using Suc.hyps(2) k Suc.prems by (intro Suc.hyps(1)) simp_all
  also have "\<dots> = take k bytes @ drop k xs"
    using k Suc.prems by (simp add: take_Suc_conv_app_nth Cons_nth_drop_Suc)
  finally show ?case .
qed

lemma hex_roundtrip: "hexToUint8Array (uint8ArrayToHex x) = x"
  using hex_loop_invariant[of "replicate (length x) 0" x 0]
  by (simp add: hexToUint8Array_def length_uint8ArrayToHex)

subsection \<open>Base64 groups\<close>


lemma unat_b64_char:
  "n < 64 \<Longrightarrow> unat (b64_char n) =
     (if n < 26 then 65 + n else if n < 52 then 71 + n else if n < 62 then n - 4
      else if n = 62 then 43 else 47)"
  unfolding b64_char_def by (subst unat_code_unit) auto

lemma b64_index_b64_char: "n < 64 \<Longrightarrow> b64_index (b64_char n) = Some n"
  by (auto simp: b64_index_def unat_b64_char Let_def)

lemma b64_char_plain:
  assumes "n < 64"
  shows "\<not> is_ascii_whitespace (b64_char n)" "b64_char n \<noteq> 0x3D"
proof -
  have neq: "b64_char n \<noteq> c" if "unat c \<in> {9, 10, 12, 13, 32, 61}" for c
    using that assms unat_b64_char[OF assms] by (auto split: if_splits)
  show "\<not> is_ascii_whitespace (b64_char n)"
    unfolding is_ascii_whitespace_def using neq[of 9] neq[of 10] neq[of 12] neq[of 13] neq[of 32]
    by auto
  show "b64_char n \<noteq> 0x3D"
    by (rule neq) simp
qed

lemma sextets_lt_64: "\<forall>b \<in> set bs. b < 256 \<Longrightarrow> \<forall>s \<in> set (b64_sextets bs). s < 64"
  by (induction bs rule: b64_sextets.induct) (auto simp: less_mult_imp_div_less)

lemma length_b64_encode: "length (b64_encode bs) mod 4 = 0"
  by (induction bs rule: b64_encode.induct) auto

lemma b64_encode_Nil: "b64_encode bs = [] \<longleftrightarrow> bs = []"
  by (cases bs rule: b64_encode.cases) auto

lemma strip_padding_append:
  assumes "length x mod 4 = 0" "length y mod 4 = 0" "y \<noteq> []"
  shows "strip_padding (x @ y) = x @ strip_padding y"
proof -
  have "length y \<noteq> 0" using assms(3) by simp
  with assms(2) have len: "4 \<le> length y" by presburger
  then have "butlast y \<noteq> []" by (cases y) auto
  moreover have "length (x @ y) mod 4 = 0" using assms(1,2) by (simp add: mod_add_eq[symmetric])
  ultimately show ?thesis using assms len
    by (simp add: strip_padding_def butlast_append)
qed


lemma strip_padding_b64_encode:
  "\<forall>b \<in> set bs. b < 256 \<Longrightarrow> strip_padding (b64_encode bs) = map b64_char (b64_sextets bs)"
proof (induction bs rule: b64_encode.induct)
  case (1 a b c rest)
  let ?x = "[b64_char (a div 4), b64_char ((a mod 4) * 16 + b div 16),
      b64_char ((b mod 16) * 4 + c div 64), b64_char (c mod 64)]"
  show ?case
  proof (cases "rest = []")
    case True
    have "c mod 64 < 64" by simp
    from b64_char_plain(2)[OF this] True show ?thesis
      by (simp add: strip_padding_def)
  next
    case False
    then have "b64_encode rest \<noteq> []" by (simp add: b64_encode_Nil)
    then have "strip_padding (?x @ b64_encode rest) = ?x @ strip_padding (b64_encode rest)"
      by (intro strip_padding_append) (simp_all add: length_b64_encode)
    with 1 show ?thesis by simp
  qed
next
  case (2 a b)
  then have "(b mod 16) * 4 < 64" by simp
  from b64_char_plain(2)[OF this] show ?case by (simp add: strip_padding_def)
next
  case (3 a)
  show ?case by (simp add: strip_padding_def)
next
  case 4
  show ?case by (simp add: strip_padding_def)
qed

lemma pad_char_plain: "\<not> is_ascii_whitespace 0x3D"
  by (simp add: is_ascii_whitespace_def)

lemma b64_encode_no_whitespace:
  "\<forall>b \<in> set bs. b < 256 \<Longrightarrow> filter (\<lambda>c. \<not> is_ascii_whitespace c) (b64_encode bs) = b64_encode bs"
proof (induction bs rule: b64_encode.induct)
  case (1 a b c rest)
  then have "a div 4 < 64" "(a mod 4) * 16 + b div 16 < 64" "(b mod 16) * 4 + c div 64 < 64" "c mod 64 < 64"
    by (auto simp: less_mult_imp_div_less)
  with 1 show ?case by (simp add: b64_char_plain(1))
next
  case (2 a b)
  then have "a div 4 < 64" "(a mod 4) * 16 + b div 16 < 64" "(b mod 16) * 4 < 64"
    by (auto simp: less_mult_imp_div_less)
  then show ?case by (simp add: b64_char_plain(1) pad_char_plain)
next
  case (3 a)
  then have "a div 4 < 64" "(a mod 4) * 16 < 64"
    by (auto simp: less_mult_imp_div_less)
  then show ?case by (simp add: b64_char_plain(1) pad_char_plain)
next
  case 4
  show ?case by simp
qed

lemma length_b64_sextets: "length (b64_sextets bs) mod 4 \<noteq> 1"
  by (induction bs rule: b64_sextets.induct) auto

lemma b64_decode_sextets: "\<forall>b \<in> set bs. b < 256 \<Longrightarrow> b64_decode (b64_sextets bs) = bs"
proof (induction bs rule: b64_sextets.induct)
  case (1 a b c rest)
  then have "b div 16 < 16" "c div 64 < 4" by (auto simp: less_mult_imp_div_less)
  with 1 show ?case by simp
next
  case (2 a b)
  then have "b div 16 < 16" by (auto simp: less_mult_imp_div_less)
  then show ?case by simp
next
  case (3 a)
  show ?case by simp
next
  case 4
  show ?case by simp
qed


lemma unat_byte_lt: "unat (b :: byte) < 256"
  using unsigned_less[of b, where ?'a = nat] by simp

lemma unat_fromCharCode: "unat (fromCharCode b) = unat b"
  using unat_byte_lt[of b] by (simp add: fromCharCode_def unsigned_ucast_eq take_bit_nat_eq_self)

lemma fromCharCode_le: "fromCharCode b \<le> 0xFF"
  using unat_byte_lt[of b] by (simp add: word_le_nat_alt unat_fromCharCode)

lemma atob_b64_encode:
  assumes "\<forall>b \<in> set bs. b < 256"
  shows "atob (b64_encode bs) = Inr (map of_nat bs)"
proof -
  let ?sx = "b64_sextets bs"
  have d: "strip_padding (filter (\<lambda>c. \<not> is_ascii_whitespace c) (b64_encode bs)) = map b64_char ?sx"
    using assms by (simp add: b64_encode_no_whitespace strip_padding_b64_encode)
  have lt: "\<forall>s \<in> set ?sx. s < 64" using assms by (rule sextets_lt_64)
  then have all: "list_all (\<lambda>c. b64_index c \<noteq> None) (map b64_char ?sx)"
    by (simp add: list_all_iff b64_index_b64_char)
  have idx: "map (\<lambda>c. the (b64_index c)) (map b64_char ?sx) = ?sx"
    using lt by (simp add: map_idI b64_index_b64_char)
  show ?thesis
    unfolding atob_def d Let_def using all idx length_b64_sextets[of bs] assms
    by (simp add: b64_decode_sextets)
qed

lemma base64_roundtrip:
  "\<exists>s. arrayBufferToBase64 x = Inr s \<and> base64ToArrayBuffer s = Inr x"
proof -
  have enc: "arrayBufferToBase64 x = Inr (b64_encode (map unat x))"
    by (simp add: arrayBufferToBase64_def btoa_def list_all_iff fromCharCode_le
        unat_fromCharCode comp_def)
  have "\<forall>b \<in> set (map unat x). b < 256" by (simp add: unat_byte_lt)
  then have "atob (b64_encode (map unat x)) = Inr (map of_nat (map unat x))"
    by (rule atob_b64_encode)
  then have "base64ToArrayBuffer (b64_encode (map unat x)) = Inr x"
    by (simp add: base64ToArrayBuffer_def uint8_of_code_unit_def comp_def ucast_up_ucast_id
        is_up map_idI)
  with enc show ?thesis by blast
qed

text \<open>
  C2. Decoding what the encoder wrote gives the bytes back, for a byte sequence of any
  length: \<open>hexToUint8Array (uint8ArrayToHex x) = x\<close>, and \<open>arrayBufferToBase64 x\<close>
  returns a string that \<open>base64ToArrayBuffer\<close> decodes to \<open>x\<close>. The codecs are functions
  of their argument alone.
\<close>

theorem codec_roundtrip:
  "hexToUint8Array (uint8ArrayToHex x) = x \<and>
   (\<exists>s. arrayBufferToBase64 x = Inr s \<and> base64ToArrayBuffer s = Inr x)"
  using hex_roundtrip base64_roundtrip by simp

subsection \<open>Malformed input to the decoders\<close>

lemma length_hex_loop: "length (hex_loop hex i bytes) = length bytes"
proof (induction hex i bytes rule: hex_loop.induct)
  case (1 hex i bytes)
  show ?case
  proof (cases "i < length hex")
    case True
    with 1 show ?thesis
      by (subst hex_loop.simps) (simp add: typed_array_set_def)
  next
    case False
    then show ?thesis by (subst hex_loop.simps) simp
  qed
qed

lemma length_hexToUint8Array: "length (hexToUint8Array hex) = length hex div 2"
  by (simp add: hexToUint8Array_def length_hex_loop)

lemma set_strip_padding:
  assumes "c \<in> set d" "c \<noteq> 0x3D"
  shows "c \<in> set (strip_padding d)"
proof -
  have keep: "c \<in> set (butlast xs)" if "c \<in> set xs" "last xs = 0x3D" for xs
  proof -
    from that(1) have "xs \<noteq> []" by auto
    then have "xs = butlast xs @ [last xs]" by simp
    then have "set xs = set (butlast xs) \<union> {last xs}"
      by (metis Un_insert_right list.simps(15) set_append sup_bot.right_neutral list.set(1))
    with that assms(2) show ?thesis by auto
  qed
  show ?thesis
    using assms(1) by (auto simp: strip_padding_def intro!: keep)
qed

lemma atob_rejects:
  assumes "c \<in> set s" "\<not> is_ascii_whitespace c" "c \<noteq> 0x3D" "b64_index c = None"
  shows "atob s = Inl InvalidCharacterError"
proof -
  let ?d = "strip_padding (filter (\<lambda>c. \<not> is_ascii_whitespace c) s)"
  have "c \<in> set ?d" using assms(1-3) by (intro set_strip_padding) simp_all
  with assms(4) have "\<not> list_all (\<lambda>c. b64_index c \<noteq> None) ?d"
    by (auto simp: list_all_iff)
  then show ?thesis by (simp add: atob_def Let_def)
qed

lemma atob_skips_whitespace:
  "atob s = atob (filter (\<lambda>c. \<not> is_ascii_whitespace c) s)"
  by (simp add: atob_def)

text \<open>
  C3, as the code has it. \<open>hexToUint8Array\<close> never fails: for every string, of odd
  length or with any code units, it returns \<open>length hex div 2\<close> bytes.
  \<open>base64ToArrayBuffer\<close> fails with \<open>InvalidCharacterError\<close> on every string that
  holds a code unit which is neither in the base64 alphabet, nor ASCII white space, nor
  the padding sign \<open>=\<close>. ASCII white space (TAB, LF, FF, CR and SPACE) is skipped:
  the outcome for a string, bytes or failure, is the outcome for the string with its
  white space removed.
\<close>

theorem decode_malformed:
  "length (hexToUint8Array hex) = length hex div 2 \<and>
   ((\<exists>c \<in> set s. \<not> is_ascii_whitespace c \<and> c \<noteq> 0x3D \<and> b64_index c = None)
      \<longrightarrow> base64ToArrayBuffer s = Inl InvalidCharacterError) \<and>
   base64ToArrayBuffer s = base64ToArrayBuffer (filter (\<lambda>c. \<not> is_ascii_whitespace c) s)"
proof (intro conjI impI)
  show "length (hexToUint8Array hex) = length hex div 2"
    by (rule length_hexToUint8Array)
next
  assume "\<exists>c \<in> set s. \<not> is_ascii_whitespace c \<and> c \<noteq> 0x3D \<and> b64_index c = None"
  then show "base64ToArrayBuffer s = Inl InvalidCharacterError"
    by (auto simp: base64ToArrayBuffer_def atob_rejects)
next
  show "base64ToArrayBuffer s = base64ToArrayBuffer (filter (\<lambda>c. \<not> is_ascii_whitespace c) s)"
    unfolding base64ToArrayBuffer_def by (subst atob_skips_whitespace) (rule refl)
qed

lemmas codec_eval = js_def hexToUint8Array_def hex_loop.simps substr_def parseInt16_def typed_array_set_def
  ToUint8_def strip_sign_def strip_hex_prefix_def is_js_whitespace_def is_hex_digit_def
  hex_digit_value_def hex_value_def base64ToArrayBuffer_def atob_def strip_padding_def
  is_ascii_whitespace_def b64_index_def uint8_of_code_unit_def Let_def

theorem decode_malformed_witness:
  "length (hexToUint8Array (js ''abc'')) = 1 \<and>
   base64ToArrayBuffer (js ''TW!u'') = Inl InvalidCharacterError \<and>
   filter (\<lambda>c. \<not> is_ascii_whitespace c) (js ''T W F u'') = js ''TWFu'' \<and>
   base64ToArrayBuffer (js ''T W F u'') = base64ToArrayBuffer (js ''TWFu'')"
proof -
  have h: "\<exists>c \<in> set (js ''TW!u''). \<not> is_ascii_whitespace c \<and> c \<noteq> 0x3D \<and> b64_index c = None"
    by (simp add: js_def is_ascii_whitespace_def b64_index_def)
  have a: "length (hexToUint8Array (js ''abc'')) = length (js ''abc'') div 2"
    using decode_malformed[of "js ''abc''" "js ''TW!u''"] by (rule conjunct1)
  have b: "base64ToArrayBuffer (js ''TW!u'') = Inl InvalidCharacterError"
    using decode_malformed[of "js ''abc''" "js ''TW!u''"] h by blast
  have f: "filter (\<lambda>c. \<not> is_ascii_whitespace c) (js ''T W F u'') = js ''TWFu''"
    by (simp add: js_def is_ascii_whitespace_def)
  have "base64ToArrayBuffer (js ''T W F u'')
      = base64ToArrayBuffer (filter (\<lambda>c. \<not> is_ascii_whitespace c) (js ''T W F u''))"
    using decode_malformed[of "js ''abc''" "js ''T W F u''"] by blast
  then have c: "base64ToArrayBuffer (js ''T W F u'') = base64ToArrayBuffer (js ''TWFu'')"
    by (simp only: f)
  have "length (js ''abc'') div 2 = 1" by (simp add: js_def)
  with a b f c show ?thesis by simp
qed

text \<open>
  Inputs the claim expects to be refused, and what is returned for them: a hex string
  of odd length, a hex string of two letters that are no hex digits, a base64 string
  with a space in it, and one with TAB, LF, FF, CR and SPACE between its characters
  (\<^verbatim>\<open>"T\tQ\n=\f\r ="\<close>).
\<close>

theorem decode_malformed_counterexample:
  "hexToUint8Array (js ''abc'') = [0xAB] \<and> hexToUint8Array (js ''zz'') = [0] \<and>
   base64ToArrayBuffer (js ''TQ =='') = Inr [0x4D] \<and>
   base64ToArrayBuffer [0x54, 0x09, 0x51, 0x0A, 0x3D, 0x0C, 0x0D, 0x20, 0x3D] = Inr [0x4D]"
  by (simp add: codec_eval)

subsection \<open>Upload and download\<close>

lemma arrayBufferToBase64_Inr:
  "arrayBufferToBase64 x = Inr (b64_encode (map unat x))"
  by (simp add: arrayBufferToBase64_def btoa_def list_all_iff fromCharCode_le
        unat_fromCharCode comp_def)

lemma exportKey_generated:
  "exportKey (generateEncryptionKey e) = Inr (getRandomValues e 32)"
  by (simp add: exportKey_def generateEncryptionKey_def)

lemma uploadFile_done:
  assumes "uploadFile gcm env user st s = (st', s', evs)" "UploadComplete \<in> set evs"
  shows "\<exists>f uid c keyBase64.
           selectedFile st = Some f \<and> user = Some uid \<and>
           encryptFile gcm (file_data f) (generateEncryptionKey (key_entropy env))
             (generateIV (iv_entropy env)) = Inr c \<and>
           arrayBufferToBase64 (getRandomValues (key_entropy env) 32) = Inr keyBase64 \<and>
           upload_path env uid f \<notin> dom (storage s) \<and>
           s' = s\<lparr>storage := (storage s)(upload_path env uid f \<mapsto> c),
                  files := files s @ [uploaded_row env uid f keyBase64]\<rparr>"
  using assms
  by (auto simp: uploadFile_def Let_def exportKey_generated storage_upload_def insert_file_def
      upload_path_def uploaded_row_def
      split: option.splits sum.splits if_splits)

lemma tagging_cipher_contract: "aes_gcm_contract tagging_cipher"
  by (auto simp: aes_gcm_contract_def tagging_cipher_def)

lemma uploadFile_succeeds:
  assumes "selectedFile st = Some f"
    and "encryptFile gcm (file_data f) (generateEncryptionKey (key_entropy env))
           (generateIV (iv_entropy env)) = Inr c"
    and "upload_path env uid f \<notin> dom (storage s)"
    and "\<not> storage_upload_fails env" "\<not> insert_file_fails env"
  shows "\<exists>st' keyBase64 evs.
           uploadFile gcm env (Some uid) st s =
             (st', s\<lparr>storage := (storage s)(upload_path env uid f \<mapsto> c),
                     files := files s @ [uploaded_row env uid f keyBase64]\<rparr>, evs) \<and>
           uploadStatus st' = Success \<and> UploadComplete \<in> set evs \<and>
           arrayBufferToBase64 (getRandomValues (key_entropy env) 32) = Inr keyBase64"
  using assms
  by (simp add: uploadFile_def Let_def exportKey_generated storage_upload_def insert_file_def
      upload_path_def uploaded_row_def arrayBufferToBase64_Inr)

lemma length_getRandomValues: "length (getRandomValues e n) = n"
  by (simp add: getRandomValues_def)

lemma handleFileSelect_accepts:
  "size_of f \<le> 50 * 1024 * 1024 \<Longrightarrow> selectedFile (fst (handleFileSelect (Some f) st)) = Some f"
  by (simp add: handleFileSelect_def)

lemma downloadFile_uploaded:
  assumes contract: "aes_gcm_contract gcm"
    and enc: "encryptFile gcm (file_data f) (generateEncryptionKey (key_entropy env))
           (generateIV (iv_entropy env)) = Inr c"
    and key: "arrayBufferToBase64 (getRandomValues (key_entropy env) 32) = Inr keyBase64"
    and s': "s' = s\<lparr>storage := (storage s)(upload_path env uid f \<mapsto> c),
                  files := files s @ [uploaded_row env uid f keyBase64]\<rparr>"
  shows "downloadFile gcm False (uploaded_row env uid f keyBase64) s' =
           Inr \<lparr>download_data = file_data f,
                download_type =
                  (if file_type f = [] then js ''application/octet-stream'' else file_type f),
                download_name = file_name f\<rparr>"
proof -
  let ?k = "getRandomValues (key_entropy env) 32"
  let ?n = "generateIV (iv_entropy env)"
  have fetch: "storage_download False (storage_path (uploaded_row env uid f keyBase64)) s' = Inr c"
    by (simp add: storage_download_def s' uploaded_row_def)
  from base64_roundtrip[of ?k] key have b64: "base64ToArrayBuffer keyBase64 = Inr ?k"
    by auto
  have imp: "importKey ?k = Inr \<lparr>key_raw = ?k, extractable = True\<rparr>"
    by (simp add: importKey_def length_getRandomValues)
  have hex: "hexToUint8Array (iv (uploaded_row env uid f keyBase64)) = ?n"
    by (simp add: uploaded_row_def hex_roundtrip)
  from enc have "gcm_encrypt gcm ?k ?n (file_data f) = Inr c"
    by (simp add: encryptFile_def generateEncryptionKey_def)
  with contract have "gcm_decrypt gcm ?k ?n c = Inr (file_data f)"
    unfolding aes_gcm_contract_def by blast
  then have dec: "decryptFile gcm c \<lparr>key_raw = ?k, extractable = True\<rparr> ?n = Inr (file_data f)"
    by (simp add: decryptFile_def)
  show ?thesis
    unfolding downloadFile_def fetch hex
    by (simp add: b64 imp dec uploaded_row_def)
qed

lemma quiet_upload_path_free:
  "upload_path quiet_upload (js ''alice'') ten_bytes \<notin> dom (storage empty_backend)"
  by (simp add: empty_backend_def)

lemma uploadFile_keeps_selection:
  "uploadFile gcm env user st s = (st', rest) \<Longrightarrow> selectedFile st' = selectedFile st"
  by (auto simp: uploadFile_def Let_def upload_failed_def exportKey_generated
      split: option.splits sum.splits)

text \<open>
  C1. For a file of at most 50 MiB, picked and then uploaded by a signed-in user with
  neither remote call failing and the generated path free: the upload succeeds and adds
  one row to \<open>files\<close>, whose \<open>encrypted_key\<close> is the base64 of the exported key and
  whose \<open>iv\<close> is the lowercase hex of the nonce; and \<open>downloadFile\<close> on that row
  (the fetch succeeding) delivers exactly the bytes of the original file, under its
  original name. The cipher is any \<open>gcm\<close> that meets \<open>aes_gcm_contract\<close>.
\<close>

theorem upload_download_roundtrip:
  assumes "aes_gcm_contract gcm"
    and "size_of f \<le> 50 * 1024 * 1024"
    and "upload_path env uid f \<notin> dom (storage s)"
    and "\<not> storage_upload_fails env" "\<not> insert_file_fails env"
  shows "\<exists>st' s' evs row.
           uploadFile gcm env (Some uid) (fst (handleFileSelect (Some f) st)) s = (st', s', evs) \<and>
           uploadStatus st' = Success \<and>
           files s' = files s @ [row] \<and>
           arrayBufferToBase64 (key_raw (generateEncryptionKey (key_entropy env)))
             = Inr (encrypted_key row) \<and>
           iv row = uint8ArrayToHex (generateIV (iv_entropy env)) \<and>
           (\<exists>d. downloadFile gcm False row s' = Inr d \<and> download_data d = file_data f \<and>
                download_name d = file_name f)"
proof -
  let ?st1 = "fst (handleFileSelect (Some f) st)"
  let ?k = "generateEncryptionKey (key_entropy env)"
  let ?n = "generateIV (iv_entropy env)"
  have sel: "selectedFile ?st1 = Some f"
    using assms(2) by (rule handleFileSelect_accepts)
  have "length (key_raw ?k) = 32" "length ?n = 12"
    by (simp_all add: generateEncryptionKey_def generateIV_def length_getRandomValues)
  moreover have "length (file_data f) \<le> 2 ^ 36 - 32"
    using assms(2) by (simp add: size_of_def)
  ultimately obtain c where enc: "encryptFile gcm (file_data f) ?k ?n = Inr c"
    using assms(1) unfolding aes_gcm_contract_def encryptFile_def by blast
  from uploadFile_succeeds[OF sel enc assms(3,4,5)] obtain st' keyBase64 evs where
    up: "uploadFile gcm env (Some uid) ?st1 s =
           (st', s\<lparr>storage := (storage s)(upload_path env uid f \<mapsto> c),
                   files := files s @ [uploaded_row env uid f keyBase64]\<rparr>, evs)"
    and ok: "uploadStatus st' = Success"
    and key: "arrayBufferToBase64 (getRandomValues (key_entropy env) 32) = Inr keyBase64"
    by blast
  let ?s' = "s\<lparr>storage := (storage s)(upload_path env uid f \<mapsto> c),
               files := files s @ [uploaded_row env uid f keyBase64]\<rparr>"
  let ?row = "uploaded_row env uid f keyBase64"
  from downloadFile_uploaded[OF assms(1) enc key refl]
  have "\<exists>d. downloadFile gcm False ?row ?s' = Inr d \<and> download_data d = file_data f \<and>
             download_name d = file_name f"
    by simp
  moreover have "files ?s' = files s @ [?row]" by simp
  moreover have "arrayBufferToBase64 (key_raw ?k) = Inr (encrypted_key ?row)"
    using key by (simp add: generateEncryptionKey_def uploaded_row_def)
  moreover have "iv ?row = uint8ArrayToHex ?n" by (simp add: uploaded_row_def)
  ultimately show ?thesis using up ok by blast
qed

theorem upload_download_roundtrip_witness:
  "aes_gcm_contract tagging_cipher \<and> size_of ten_bytes \<le> 50 * 1024 * 1024 \<and>
   upload_path quiet_upload (js ''alice'') ten_bytes \<notin> dom (storage empty_backend) \<and>
   \<not> storage_upload_fails quiet_upload \<and> \<not> insert_file_fails quiet_upload \<and>
   (\<exists>st' s' evs row.
      uploadFile tagging_cipher quiet_upload (Some (js ''alice''))
        (fst (handleFileSelect (Some ten_bytes) fresh_upload)) empty_backend = (st', s', evs) \<and>
      uploadStatus st' = Success \<and>
      files s' = [row] \<and>
      (\<exists>d. downloadFile tagging_cipher False row s' = Inr d \<and>
           download_data d = [1, 2, 3, 4, 5, 6, 7, 8, 9, 10]))"
proof -
  have small: "size_of ten_bytes \<le> 50 * 1024 * 1024"
    by (simp add: size_of_def ten_bytes_def)
  have quiet: "\<not> storage_upload_fails quiet_upload" "\<not> insert_file_fails quiet_upload"
    by (simp_all add: quiet_upload_def)
  have emp: "files empty_backend = []" by (simp add: empty_backend_def)
  have dat: "file_data ten_bytes = [1, 2, 3, 4, 5, 6, 7, 8, 9, 10]" by (simp add: ten_bytes_def)
  from upload_download_roundtrip[OF tagging_cipher_contract small quiet_upload_path_free quiet,
      of fresh_upload]
  show ?thesis
    using tagging_cipher_contract small quiet_upload_path_free quiet
    unfolding emp dat by auto
qed

text \<open>
  C7. A file of more than 50 MiB (\<open>50 * 1024 * 1024\<close> bytes) is rejected when it is
  picked: \<open>handleFileSelect\<close> shows the toast "File too large" and leaves the component
  as it was, so the file is not selected; its events hold no key generation, no
  encryption and no remote call. A file of at most 50 MiB becomes the selected file and
  no toast is shown. \<open>uploadFile\<close> works on the selected file only: with none selected
  it does nothing at all, and it never changes the selection; so once every selected
  file is within the limit, it stays so.
\<close>

theorem oversized_file_rejected:
  "(size_of f > 50 * 1024 * 1024 \<longrightarrow>
      handleFileSelect (Some f) st = (st, [Toast (js ''File too large'')])) \<and>
   (size_of f \<le> 50 * 1024 * 1024 \<longrightarrow>
      selectedFile (fst (handleFileSelect (Some f) st)) = Some f \<and>
      snd (handleFileSelect (Some f) st) = []) \<and>
   (selectedFile st = None \<longrightarrow> uploadFile gcm env user st s = (st, s, [])) \<and>
   selectedFile (fst (uploadFile gcm env user st s)) = selectedFile st \<and>
   ((\<forall>g. selectedFile st = Some g \<longrightarrow> size_of g \<le> 50 * 1024 * 1024) \<longrightarrow>
      (\<forall>g. selectedFile (fst (handleFileSelect picked st)) = Some g
         \<longrightarrow> size_of g \<le> 50 * 1024 * 1024))"
proof -
  have c1: "size_of f > 50 * 1024 * 1024 \<longrightarrow>
      handleFileSelect (Some f) st = (st, [Toast (js ''File too large'')])"
    by (simp add: handleFileSelect_def)
  have c2: "size_of f \<le> 50 * 1024 * 1024 \<longrightarrow>
      selectedFile (fst (handleFileSelect (Some f) st)) = Some f \<and>
      snd (handleFileSelect (Some f) st) = []"
    by (simp add: handleFileSelect_def)
  have c3: "selectedFile st = None \<longrightarrow> uploadFile gcm env user st s = (st, s, [])"
    by (simp add: uploadFile_def)
  have c4: "selectedFile (fst (uploadFile gcm env user st s)) = selectedFile st"
    by (rule uploadFile_keeps_selection[OF surjective_pairing])
  have c5: "(\<forall>g. selectedFile st = Some g \<longrightarrow> size_of g \<le> 50 * 1024 * 1024) \<longrightarrow>
      (\<forall>g. selectedFile (fst (handleFileSelect picked st)) = Some g
         \<longrightarrow> size_of g \<le> 50 * 1024 * 1024)"
    by (auto simp: handleFileSelect_def split: option.splits if_splits)
  from c1 c2 c3 c4 c5 show ?thesis by (intro conjI)
qed

theorem oversized_file_rejected_witness:
  "size_of big_file > 50 * 1024 * 1024 \<and>
   handleFileSelect (Some big_file) fresh_upload = (fresh_upload, [Toast (js ''File too large'')]) \<and>
   size_of ten_bytes \<le> 50 * 1024 * 1024 \<and>
   selectedFile (fst (handleFileSelect (Some ten_bytes) fresh_upload)) = Some ten_bytes \<and>
   selectedFile fresh_upload = None \<and>
   uploadFile tagging_cipher quiet_upload (Some (js ''alice'')) fresh_upload empty_backend
     = (fresh_upload, empty_backend, []) \<and>
   size_of (the (selectedFile (fst (handleFileSelect (Some ten_bytes) fresh_upload))))
     \<le> 50 * 1024 * 1024"
proof -
  have big: "size_of big_file > 50 * 1024 * 1024"
    by (simp add: size_of_def big_file_def)
  have small: "size_of ten_bytes \<le> 50 * 1024 * 1024"
    by (simp add: size_of_def ten_bytes_def)
  have none: "selectedFile fresh_upload = None"
    by (simp add: fresh_upload_def)
  note inst = oversized_file_rejected[of _ fresh_upload tagging_cipher quiet_upload
      "Some (js ''alice'')" empty_backend]
  from inst[of big_file] big
  have c1: "handleFileSelect (Some big_file) fresh_upload
      = (fresh_upload, [Toast (js ''File too large'')])"
    by blast
  from inst[of ten_bytes "Some ten_bytes"] small
  have c2: "selectedFile (fst (handleFileSelect (Some ten_bytes) fresh_upload)) = Some ten_bytes"
    by blast
  from inst[of ten_bytes] none
  have c3: "uploadFile tagging_cipher quiet_upload (Some (js ''alice'')) fresh_upload empty_backend
     = (fresh_upload, empty_backend, [])"
    by blast
  from inst[of ten_bytes "Some ten_bytes"] none
  have "\<forall>g. selectedFile (fst (handleFileSelect (Some ten_bytes) fresh_upload)) = Some g
         \<longrightarrow> size_of g \<le> 50 * 1024 * 1024"
    by simp
  with c2 have c4: "size_of (the (selectedFile (fst (handleFileSelect (Some ten_bytes) fresh_upload))))
     \<le> 50 * 1024 * 1024"
    by simp
  from big c1 small c2 none c3 c4 show ?thesis by blast
qed

text \<open>
  C10. Whenever \<open>uploadFile\<close> completes, the row it added to \<open>files\<close> has as
  \<open>file_size\<close> the number of bytes of the selected plaintext file, while the object stored
  at the row's \<open>storage_path\<close> is the cipher's output, 16 bytes longer. The cipher is
  any \<open>gcm\<close> that meets \<open>aes_gcm_contract\<close>.
\<close>

theorem file_size_is_plaintext_size:
  assumes "aes_gcm_contract gcm"
    and "uploadFile gcm env user st s = (st', s', evs)"
    and "UploadComplete \<in> set evs"
  shows "\<exists>f row blob.
           selectedFile st = Some f \<and> files s' = files s @ [row] \<and>
           file_size row = length (file_data f) \<and>
           storage s' (storage_path row) = Some blob \<and>
           length blob = file_size row + 16"
proof -
  from uploadFile_done[OF assms(2,3)] obtain f uid c keyBase64 where
    f: "selectedFile st = Some f"
    and enc: "encryptFile gcm (file_data f) (generateEncryptionKey (key_entropy env))
             (generateIV (iv_entropy env)) = Inr c"
    and s': "s' = s\<lparr>storage := (storage s)(upload_path env uid f \<mapsto> c),
                  files := files s @ [uploaded_row env uid f keyBase64]\<rparr>"
    by blast
  from enc assms(1) have "length c = length (file_data f) + 16"
    unfolding aes_gcm_contract_def encryptFile_def by blast
  with f s' show ?thesis
    by (simp add: uploaded_row_def size_of_def)
qed

theorem file_size_is_plaintext_size_witness:
  "aes_gcm_contract tagging_cipher \<and>
   (\<exists>st' s' evs.
      uploadFile tagging_cipher quiet_upload (Some (js ''alice''))
        (fst (handleFileSelect (Some ten_bytes) fresh_upload)) empty_backend = (st', s', evs) \<and>
      UploadComplete \<in> set evs \<and>
      (\<exists>row blob. files s' = [row] \<and> file_size row = 10 \<and>
         storage s' (storage_path row) = Some blob \<and> length blob = 26))"
proof -
  let ?st = "fst (handleFileSelect (Some ten_bytes) fresh_upload)"
  have sel: "selectedFile ?st = Some ten_bytes"
    by (simp add: handleFileSelect_def size_of_def ten_bytes_def)
  have enc: "encryptFile tagging_cipher (file_data ten_bytes)
      (generateEncryptionKey (key_entropy quiet_upload)) (generateIV (iv_entropy quiet_upload))
      = Inr (file_data ten_bytes @ replicate 16 0)"
    by (simp add: encryptFile_def tagging_cipher_def)
  have quiet: "\<not> storage_upload_fails quiet_upload" "\<not> insert_file_fails quiet_upload"
    by (simp_all add: quiet_upload_def)
  from uploadFile_succeeds[OF sel enc quiet_upload_path_free quiet]
  obtain st' s' evs where
    up: "uploadFile tagging_cipher quiet_upload (Some (js ''alice'')) ?st empty_backend
           = (st', s', evs)"
    and fin: "UploadComplete \<in> set evs"
    by blast
  from file_size_is_plaintext_size[OF tagging_cipher_contract up fin] sel
  obtain row blob where
    "files s' = files empty_backend @ [row]" "file_size row = length (file_data ten_bytes)"
    "storage s' (storage_path row) = Some blob" "length blob = file_size row + 16"
    by auto
  then have "files s' = [row] \<and> file_size row = 10 \<and>
      storage s' (storage_path row) = Some blob \<and> length blob = 26"
    by (simp add: empty_backend_def ten_bytes_def)
  with up fin tagging_cipher_contract show ?thesis by blast
qed

subsection \<open>The one-time code\<close>

lemma number_toString_six:
  assumes "100000 \<le> n" "n \<le> 999999"
  shows "number_toString 10 n =
           map digit_char [n div 100000, n div 10000 mod 10, n div 1000 mod 10,
                           n div 100 mod 10, n div 10 mod 10, n mod 10]"
proof -
  have b: "10 \<le> n" "10 \<le> n div 10" "10 \<le> n div 100" "10 \<le> n div 1000" "10 \<le> n div 10000"
    "n div 100000 < 10"
    using assms by simp_all
  have d: "n div 10 div 10 = n div 100" "n div 100 div 10 = n div 1000"
    "n div 1000 div 10 = n div 10000" "n div 10000 div 10 = n div 100000"
    by (simp_all add: div_mult2_eq[symmetric])
  have s1: "number_toString 10 n = number_toString 10 (n div 10) @ [digit_char (n mod 10)]"
    using b(1) by (subst number_toString.simps) simp
  have s2: "number_toString 10 (n div 10)
      = number_toString 10 (n div 100) @ [digit_char (n div 10 mod 10)]"
    using b(2) by (subst number_toString.simps) (simp add: d)
  have s3: "number_toString 10 (n div 100)
      = number_toString 10 (n div 1000) @ [digit_char (n div 100 mod 10)]"
    using b(3) by (subst number_toString.simps) (simp add: d)
  have s4: "number_toString 10 (n div 1000)
      = number_toString 10 (n div 10000) @ [digit_char (n div 1000 mod 10)]"
    using b(4) by (subst number_toString.simps) (simp add: d)
  have s5: "number_toString 10 (n div 10000)
      = number_toString 10 (n div 100000) @ [digit_char (n div 10000 mod 10)]"
    using b(5) by (subst number_toString.simps) (simp add: d)
  have s6: "number_toString 10 (n div 100000) = [digit_char (n div 100000)]"
    using b(6) by (subst number_toString.simps) simp
  show ?thesis by (simp add: s1 s2 s3 s4 s5 s6)
qed

lemma digit_char_decimal: "d < 10 \<Longrightarrow> is_decimal_digit (digit_char d)"
  by (simp add: is_decimal_digit_def word_le_nat_alt unat_digit_char)

lemma digit_char_nonzero: "0 < d \<Longrightarrow> d < 10 \<Longrightarrow> digit_char d \<noteq> 0x30"
  using unat_digit_char[of d] by (auto dest!: arg_cong[where f = unat])

subsection \<open>Rounding to binary64\<close>

lemma round_half_even_bounds:
  "of_int (round_half_even y) \<le> y + 1/2" "y - 1/2 \<le> of_int (round_half_even y)"
  by (auto simp: round_half_even_def Let_def) linarith+

lemma round_half_even_floor: "\<lfloor>y\<rfloor> \<le> round_half_even y" "round_half_even y \<le> \<lfloor>y\<rfloor> + 1"
  by (auto simp: round_half_even_def Let_def)

lemma round_half_even_ge:
  assumes "of_int k \<le> y"
  shows "k \<le> round_half_even y"
proof -
  from assms have "k \<le> \<lfloor>y\<rfloor>" by (simp add: le_floor_iff)
  with round_half_even_floor(1)[of y] show ?thesis by linarith
qed

lemma round_half_even_le:
  assumes "y \<le> of_int k"
  shows "round_half_even y \<le> k"
proof (cases "y = of_int k")
  case True
  then show ?thesis by (simp add: round_half_even_def)
next
  case False
  with assms have "y < of_int k" by simp
  then have "\<lfloor>y\<rfloor> < k" by (simp add: floor_less_iff)
  with round_half_even_floor(2)[of y] show ?thesis by linarith
qed

lemma round_half_even_nearest: "\<bar>of_int (round_half_even y) - y\<bar> \<le> \<bar>of_int k - y\<bar>"
proof (cases "of_int k \<le> y")
  case True
  then have k: "k \<le> \<lfloor>y\<rfloor>" by (simp add: le_floor_iff)
  show ?thesis
  proof (cases "k = \<lfloor>y\<rfloor>")
    case True
    then show ?thesis
      by (auto simp: round_half_even_def Let_def abs_if; linarith)
  next
    case False
    with k have "k \<le> \<lfloor>y\<rfloor> - 1" by simp
    then have "of_int k \<le> of_int \<lfloor>y\<rfloor> - (1::real)" by linarith
    moreover have "of_int \<lfloor>y\<rfloor> \<le> y" by simp
    ultimately have "1 \<le> \<bar>of_int k - y\<bar>" by linarith
    moreover have "\<bar>of_int (round_half_even y) - y\<bar> \<le> 1/2"
      using round_half_even_bounds[of y] by linarith
    ultimately show ?thesis by linarith
  qed
next
  case False
  then have "y < of_int k" by simp
  then have "\<lfloor>y\<rfloor> < k" by (simp add: floor_less_iff)
  then have k: "\<lfloor>y\<rfloor> + 1 \<le> k" by simp
  show ?thesis
  proof (cases "k = \<lfloor>y\<rfloor> + 1")
    case True
    then show ?thesis
      by (auto simp: round_half_even_def Let_def abs_if; linarith)
  next
    case False
    with k have "\<lfloor>y\<rfloor> + 2 \<le> k" by simp
    then have "of_int \<lfloor>y\<rfloor> + (2::real) \<le> of_int k" by linarith
    moreover have "y < of_int \<lfloor>y\<rfloor> + 1" by linarith
    ultimately have "1 \<le> \<bar>of_int k - y\<bar>" by linarith
    moreover have "\<bar>of_int (round_half_even y) - y\<bar> \<le> 1/2"
      using round_half_even_bounds[of y] by linarith
    ultimately show ?thesis by linarith
  qed
qed

lemma binade_lower:
  assumes "0 < x"
  shows "2 powi (binade x) \<le> x"
proof (cases "1 \<le> x")
  case True
  then have n: "0 < \<lfloor>x\<rfloor>" by simp
  from bitlen_bounds[OF n] have "2 ^ nat (bitlen \<lfloor>x\<rfloor> - 1) \<le> \<lfloor>x\<rfloor>" by simp
  then have "(2::real) ^ nat (bitlen \<lfloor>x\<rfloor> - 1) \<le> of_int \<lfloor>x\<rfloor>"
    by (metis of_int_le_iff of_int_numeral of_int_power)
  also have "\<dots> \<le> x" by simp
  finally have "(2::real) ^ nat (bitlen \<lfloor>x\<rfloor> - 1) \<le> x" .
  moreover have "0 \<le> bitlen \<lfloor>x\<rfloor> - 1"
    using n by (simp add: bitlen_alt_def)
  ultimately show ?thesis using True by (simp add: binade_def power_int_nonneg_exp)
next
  case False
  with assms have y: "1 < 1 / x" by simp
  let ?n = "\<lceil>1 / x\<rceil>"
  let ?k = "bitlen (?n - 1)"
  from y have n: "0 < ?n - 1" by linarith
  from bitlen_bounds[OF n] have "?n - 1 < 2 ^ nat ?k" by simp
  then have "?n \<le> 2 ^ nat ?k" by simp
  then have "of_int ?n \<le> (2::real) ^ nat ?k"
    by (metis of_int_le_iff of_int_numeral of_int_power)
  moreover have "1 / x \<le> of_int ?n" by simp
  ultimately have "1 / x \<le> 2 ^ nat ?k" by linarith
  then have "1 / 2 ^ nat ?k \<le> x"
    using assms by (simp add: field_simps)
  moreover have "0 \<le> ?k" by (rule bitlen_nonneg)
  ultimately show ?thesis
    using False by (simp add: binade_def power_int_minus power_int_nonneg_exp field_simps)
qed

lemma binade_upper:
  assumes "0 < x"
  shows "x < 2 powi (binade x + 1)"
proof (cases "1 \<le> x")
  case True
  then have n: "0 < \<lfloor>x\<rfloor>" by simp
  from bitlen_bounds[OF n] have "\<lfloor>x\<rfloor> + 1 \<le> 2 ^ nat (bitlen \<lfloor>x\<rfloor>)" by simp
  then have "of_int (\<lfloor>x\<rfloor> + 1) \<le> (2::real) ^ nat (bitlen \<lfloor>x\<rfloor>)"
    by (metis of_int_le_iff of_int_numeral of_int_power)
  moreover have "x < of_int (\<lfloor>x\<rfloor> + 1)" by linarith
  ultimately have "x < 2 ^ nat (bitlen \<lfloor>x\<rfloor>)" by linarith
  moreover have "0 \<le> bitlen \<lfloor>x\<rfloor>" by (rule bitlen_nonneg)
  ultimately show ?thesis using True by (simp add: binade_def power_int_nonneg_exp)
next
  case False
  with assms have y: "1 < 1 / x" by simp
  let ?n = "\<lceil>1 / x\<rceil>"
  let ?k = "bitlen (?n - 1)"
  from y have n: "0 < ?n - 1" by linarith
  then have k: "1 \<le> ?k" by (simp add: bitlen_alt_def)
  from bitlen_bounds[OF n] have "2 ^ nat (?k - 1) \<le> ?n - 1" by simp
  then have "(2::real) ^ nat (?k - 1) \<le> of_int (?n - 1)"
    by (metis of_int_le_iff of_int_numeral of_int_power)
  moreover have "of_int (?n - 1) < 1 / x" by linarith
  ultimately have "2 ^ nat (?k - 1) < 1 / x" by linarith
  then have "x < 1 / 2 ^ nat (?k - 1)"
    using assms by (simp add: field_simps)
  moreover have "(2::real) powi (- ?k + 1) = 1 / 2 ^ nat (?k - 1)"
    using k power_int_minus[of "2::real" "?k - 1"]
    by (simp add: power_int_nonneg_exp field_simps)
  ultimately show ?thesis
    using False by (simp add: binade_def)
qed

lemma binade_unique:
  assumes "0 < x" "2 powi e \<le> x" "x < 2 powi (e + 1)"
  shows "binade x = e"
proof (rule antisym)
  show "binade x \<le> e"
  proof (rule ccontr)
    assume "\<not> binade x \<le> e"
    then have "e + 1 \<le> binade x" by simp
    then have "(2::real) powi (e + 1) \<le> 2 powi (binade x)"
      by (intro power_int_increasing) simp_all
    with binade_lower[OF assms(1)] assms(3) show False by linarith
  qed
  show "e \<le> binade x"
  proof (rule ccontr)
    assume "\<not> e \<le> binade x"
    then have "binade x + 1 \<le> e" by simp
    then have "(2::real) powi (binade x + 1) \<le> 2 powi e"
      by (intro power_int_increasing) simp_all
    with binade_upper[OF assms(1)] assms(2) show False by linarith
  qed
qed

lemma ulp_pos: "0 < ulp x"
  by (simp add: ulp_def)

lemma binary64_grid:
  assumes "0 < x" "g = ulp x * of_int k"
  shows "g \<le> x \<Longrightarrow> g \<le> binary64 x" "x \<le> g \<Longrightarrow> binary64 x \<le> g"
    "\<bar>binary64 x - x\<bar> \<le> \<bar>g - x\<bar>"
proof -
  let ?u = "ulp x"
  let ?m = "round_half_even (x / ?u)"
  have u: "0 < ?u" by (rule ulp_pos)
  have b: "binary64 x = ?u * of_int ?m"
    using assms(1) by (simp add: binary64_def)
  have x: "x = ?u * (x / ?u)" using u by simp
  show "g \<le> binary64 x" if "g \<le> x"
  proof -
    from that have "of_int k \<le> x / ?u"
      using u by (simp add: assms(2) field_simps)
    then have "k \<le> ?m" by (rule round_half_even_ge)
    then have "of_int k \<le> (of_int ?m :: real)" by simp
    then show ?thesis unfolding b assms(2) using u by simp
  qed
  show "binary64 x \<le> g" if "x \<le> g"
  proof -
    from that have "x / ?u \<le> of_int k"
      using u by (simp add: assms(2) field_simps)
    then have "?m \<le> k" by (rule round_half_even_le)
    then have "(of_int ?m :: real) \<le> of_int k" by simp
    then show ?thesis unfolding b assms(2) using u by simp
  qed
  have "\<bar>binary64 x - x\<bar> = ?u * \<bar>of_int ?m - x / ?u\<bar>"
    using u by (simp add: b abs_mult[symmetric] field_simps del: abs_mult)
  also have "\<dots> \<le> ?u * \<bar>of_int k - x / ?u\<bar>"
    using u round_half_even_nearest[of "x / ?u" k] by simp
  also have "\<dots> = \<bar>g - x\<bar>"
    using u by (simp add: assms(2) abs_mult[symmetric] field_simps del: abs_mult)
  finally show "\<bar>binary64 x - x\<bar> \<le> \<bar>g - x\<bar>" .
qed

lemma ulp_divides:
  assumes "0 < x" "x < 2 powi b" "- 1021 \<le> b"
  shows "\<exists>j::nat. 2 powi (b - 53) = ulp x * 2 ^ j"
proof -
  have "2 powi (binade x) < (2::real) powi b"
    using binade_lower[OF assms(1)] assms(2) by linarith
  then have "binade x < b"
    by (metis power_int_increasing linorder_not_le one_le_numeral)
  with assms(3) have le: "max (binade x) (- 1022) \<le> b - 1" by simp
  let ?e = "max (binade x) (- 1022)"
  have "(2::real) powi (b - 53) = 2 powi (?e - 52) * 2 powi (b - 1 - ?e)"
    by (simp flip: power_int_add)
  also have "(2::real) powi (b - 1 - ?e) = 2 ^ nat (b - 1 - ?e)"
    using le by (simp add: power_int_nonneg_exp)
  finally show ?thesis unfolding ulp_def by blast
qed

lemma binary64_grid_below:
  assumes "0 \<le> x" "x < 2 powi b" "- 1021 \<le> b" "g = 2 powi (b - 53) * of_int k"
  shows "g \<le> x \<Longrightarrow> g \<le> binary64 x" "x \<le> g \<Longrightarrow> binary64 x \<le> g"
    "\<bar>binary64 x - x\<bar> \<le> \<bar>g - x\<bar>"
proof -
  have *: "(g \<le> x \<longrightarrow> g \<le> binary64 x) \<and> (x \<le> g \<longrightarrow> binary64 x \<le> g) \<and>
           \<bar>binary64 x - x\<bar> \<le> \<bar>g - x\<bar>"
  proof (cases "x = 0")
    case True
    then show ?thesis by (simp add: binary64_def)
  next
    case False
    with assms(1) have pos: "0 < x" by simp
    from ulp_divides[OF pos assms(2,3)] obtain j :: nat where
      "2 powi (b - 53) = ulp x * 2 ^ j" by blast
    then have "g = ulp x * of_int (2 ^ j * k)"
      by (simp add: assms(4))
    from binary64_grid[OF pos this] show ?thesis by blast
  qed
  from * show "g \<le> x \<Longrightarrow> g \<le> binary64 x" "x \<le> g \<Longrightarrow> binary64 x \<le> g"
    "\<bar>binary64 x - x\<bar> \<le> \<bar>g - x\<bar>"
    by blast+
qed

lemma binary64_exact:
  assumes "0 \<le> x" "x < 2 powi b" "- 1021 \<le> b" "x = 2 powi (b - 53) * of_int k"
  shows "binary64 x = x"
  using binary64_grid_below(1,2)[OF assms] by simp

lemma binary64_of_int:
  assumes "0 \<le> n" "n < 2 ^ 53"
  shows "binary64 (of_int n) = of_int n"
proof (rule binary64_exact[where b = 53 and k = n])
  show "(0::real) \<le> of_int n" using assms(1) by simp
  have "(of_int n :: real) < of_int (2 ^ 53)" using assms(2) by (simp only: of_int_less_iff)
  then show "(of_int n :: real) < 2 powi 53" by simp
qed simp_all

lemma binary64_below_one:
  assumes "binary64 r = r" "0 \<le> r" "r < 1"
  shows "r \<le> 1 - 1 / 2 ^ 53"
proof (cases "r < 1/2")
  case True
  then show ?thesis by simp
next
  case False
  then have pos: "0 < r" by simp
  have "binade r = - 1"
    using False assms(3) by (intro binade_unique[OF pos]) (simp_all add: power_int_minus)
  then have u: "ulp r = 1 / 2 ^ 53"
    by (simp add: ulp_def power_int_minus field_simps)
  let ?m = "round_half_even (r / ulp r)"
  have r: "r = of_int ?m / 2 ^ 53"
    using assms(1) pos by (simp add: binary64_def u)
  with assms(3) have "of_int ?m < (2::real) ^ 53" by (simp add: field_simps)
  then have "(of_int ?m :: real) < of_int (2 ^ 53)" by simp
  then have "?m < 2 ^ 53" by (simp only: of_int_less_iff)
  then have "?m \<le> 2 ^ 53 - 1" by simp
  then have "(of_int ?m :: real) \<le> of_int (2 ^ 53 - 1)" by (simp only: of_int_le_iff)
  then have "of_int ?m / 2 ^ 53 \<le> (2 ^ 53 - 1) / (2::real) ^ 53"
    by (simp add: divide_right_mono)
  with r show ?thesis by (simp add: field_simps)
qed

lemma otp_sum_range:
  assumes r: "0 \<le> r" "r \<le> 1 - 1 / 2 ^ 53"
  shows "100000 \<le> binary64 (100000 + binary64 (r * 900000))"
    "binary64 (100000 + binary64 (r * 900000)) < 1000000"
proof -
  let ?x = "r * 900000"
  let ?z = "100000 + binary64 ?x"
  have x0: "0 \<le> ?x" using r(1) by simp
  have x1: "?x \<le> 900000 - 900000 / 2 ^ 53" using r(2) by (simp add: field_simps)
  then have xb: "?x < 2 powi 20" by simp
  note gx = binary64_grid_below[OF x0 xb, simplified]
  have a0: "0 \<le> binary64 ?x"
    using gx(1)[of 0 0] x0 by simp
  have "\<bar>binary64 ?x - ?x\<bar> \<le> \<bar>(900000 * 2 ^ 33 - 1) / 2 ^ 33 - ?x\<bar>"
    using gx(3)[of "(900000 * 2 ^ 33 - 1) / 2 ^ 33" "900000 * 2 ^ 33 - 1"]
    by (simp add: power_int_minus field_simps)
  then have a1: "binary64 ?x \<le> 900000 - 7 / (10 * 2 ^ 33)"
    using x1 by (simp add: field_simps abs_if split: if_splits)
  have z0: "0 \<le> ?z" "100000 \<le> ?z" using a0 by simp_all
  have zb: "?z < 2 powi 20" using a1 by simp
  note gz = binary64_grid_below[OF z0(1) zb, simplified]
  show "100000 \<le> binary64 ?z"
    using gz(1)[of 100000 "100000 * 2 ^ 33"] z0(2) by (simp add: power_int_minus)
  have "\<bar>binary64 ?z - ?z\<bar> \<le> \<bar>(1000000 * 2 ^ 33 - 1) / 2 ^ 33 - ?z\<bar>"
    using gz(3)[of "(1000000 * 2 ^ 33 - 1) / 2 ^ 33" "1000000 * 2 ^ 33 - 1"]
    by (simp add: power_int_minus field_simps)
  then show "binary64 ?z < 1000000"
    using a1 by (simp add: field_simps abs_if split: if_splits)
qed

lemma binary64_numeral:
  assumes "numeral n < (2::int) ^ 53"
  shows "binary64 (numeral n) = numeral n"
  using binary64_of_int[of "numeral n"] assms by simp

lemma binary64_half: "binary64 (1/2) = 1/2"
  by (rule binary64_exact[where b = 0 and k = "2 ^ 52"]) (simp_all add: power_int_minus)

lemma binary64_zero: "binary64 0 = 0"
  by (simp add: binary64_def)

lemma binary64_eval:
  assumes "0 < x" "2 powi e \<le> x" "x < 2 powi (e + 1)" "- 1022 \<le> e"
  shows "binary64 x = 2 powi (e - 52) * of_int (round_half_even (x / 2 powi (e - 52)))"
proof -
  have "binade x = e" using assms(1-3) by (rule binade_unique)
  with assms(4) have "ulp x = 2 powi (e - 52)" by (simp add: ulp_def)
  with assms(1) show ?thesis by (simp add: binary64_def)
qed

subsection \<open>The code that is generated\<close>

lemma six_digit_shape:
  assumes "100000 \<le> n" "n \<le> 999999"
  shows "length (number_toString 10 n) = 6 \<and> list_all is_decimal_digit (number_toString 10 n) \<and>
         hd (number_toString 10 n) \<noteq> 0x30"
proof -
  have first: "0 < n div 100000" "n div 100000 < 10"
    using assms by simp_all
  then show ?thesis
    by (simp add: number_toString_six[OF assms] digit_char_decimal digit_char_nonzero)
qed

lemma generate_otp_digits:
  assumes "binary64 r = r" "0 \<le> r" "r < 1"
  shows "\<exists>n. 100000 \<le> n \<and> n \<le> 999999 \<and> generate_otp r = number_toString 10 n \<and>
           length (generate_otp r) = 6 \<and> list_all is_decimal_digit (generate_otp r) \<and>
           hd (generate_otp r) \<noteq> 0x30"
proof -
  let ?v = "binary64 (100000 + binary64 (r * 900000))"
  have "r \<le> 1 - 1 / 2 ^ 53" using assms by (rule binary64_below_one)
  from otp_sum_range[OF assms(2) this] have "100000 \<le> ?v" "?v < 1000000" by simp_all
  then have "100000 \<le> \<lfloor>?v\<rfloor>" "\<lfloor>?v\<rfloor> < 1000000" by linarith+
  then have n: "100000 \<le> nat \<lfloor>?v\<rfloor>" "nat \<lfloor>?v\<rfloor> \<le> 999999" by linarith+
  from six_digit_shape[OF n] n show ?thesis
    unfolding generate_otp_def by blast
qed

lemma generate_otp_half: "generate_otp (1/2) = js ''550000''"
  by (simp add: generate_otp_def binary64_numeral number_toString_six js_def digit_char_def)

lemma generate_otp_zero: "generate_otp 0 = js ''100000''"
  by (simp add: generate_otp_def binary64_numeral binary64_zero number_toString_six js_def
      digit_char_def)

text \<open>
  The rounding is felt: for the outcome \<open>263920946163083 / 2^53\<close> the exact product is
  just below 26371 and its binary64 value is 26371, so the code is 126371 where exact
  arithmetic would give 126370.
\<close>

lemma product_rounds_up:
  "binary64 (263920946163083 / 2 ^ 53 * 900000) = 26371"
  by (subst binary64_eval[where e = 14])
     (simp_all add: power_int_minus round_half_even_def Let_def)

lemma generate_otp_rounds: "generate_otp (263920946163083 / 2 ^ 53) = js ''126371''"
  unfolding generate_otp_def
  by (simp only: product_rounds_up)
     (simp add: binary64_numeral number_toString_six js_def digit_char_def)

text \<open>
  C4, as the code has it. For every outcome \<open>r\<close> of \<^verbatim>\<open>Math.random()\<close>, a binary64
  number with \<open>0 \<le> r < 1\<close>, the code is the decimal string of an integer between
  100000 and 999999: six decimal digits, the first of which is never \<open>0\<close>. Nothing is
  padded with zeros.
\<close>

theorem otp_code_shape:
  assumes "binary64 r = r" "0 \<le> r" "r < 1"
  shows "length (generate_otp r) = 6 \<and> list_all is_decimal_digit (generate_otp r) \<and>
         hd (generate_otp r) \<noteq> 0x30 \<and>
         (\<exists>n. 100000 \<le> n \<and> n \<le> 999999 \<and> generate_otp r = number_toString 10 n)"
  using generate_otp_digits[OF assms] by blast

theorem otp_code_shape_witness:
  "binary64 (1/2) = 1/2 \<and> (0::real) \<le> 1/2 \<and> (1/2::real) < 1 \<and>
   generate_otp (1/2) = js ''550000'' \<and>
   length (generate_otp (1/2)) = 6 \<and> list_all is_decimal_digit (generate_otp (1/2)) \<and>
   hd (generate_otp (1/2)) \<noteq> 0x30"
proof -
  have h: "(0::real) \<le> 1/2" "(1/2::real) < 1" by simp_all
  from otp_code_shape[OF binary64_half h]
  have "length (generate_otp (1/2)) = 6" "list_all is_decimal_digit (generate_otp (1/2))"
    "hd (generate_otp (1/2)) \<noteq> 0x30"
    by blast+
  with binary64_half h generate_otp_half show ?thesis by blast
qed

theorem otp_leading_zero_counterexample:
  "generate_otp 0 = js ''100000'' \<and>
   \<not> (\<exists>r. binary64 r = r \<and> 0 \<le> r \<and> r < 1 \<and> hd (generate_otp r) = 0x30)"
proof -
  have "\<not> (\<exists>r. binary64 r = r \<and> 0 \<le> r \<and> r < 1 \<and> hd (generate_otp r) = 0x30)"
    using generate_otp_digits by blast
  with generate_otp_zero show ?thesis by simp
qed

subsection \<open>Verification of a code\<close>

lemma latest_in_set: "latest rs = Some r \<Longrightarrow> r \<in> set rs"
  by (induction rs arbitrary: r) (auto split: option.splits if_splits)

lemma latest_eq_None: "latest rs = None \<longleftrightarrow> rs = []"
  by (cases rs) (auto split: option.splits)

lemma select_otp_SomeD:
  assumes "select_otp fails email otp now s = Some r"
  shows "r \<in> set (otp_verifications s)" "otp_matches email otp now r" "\<not> fails"
proof -
  from assms have nf: "\<not> fails" and l: "latest (filter (otp_matches email otp now) (otp_verifications s)) = Some r"
    by (auto simp: select_otp_def split: if_splits)
  from latest_in_set[OF l] show "r \<in> set (otp_verifications s)" "otp_matches email otp now r"
    by auto
  show "\<not> fails" by (rule nf)
qed

lemma select_otp_None_iff:
  "select_otp fails email otp now s = None \<longleftrightarrow>
     fails \<or> (\<forall>r \<in> set (otp_verifications s). \<not> otp_matches email otp now r)"
  by (auto simp: select_otp_def latest_eq_None filter_empty_conv)

lemma verify_found:
  "select_otp (otp_select_fails env) email otp (server_now env) s = Some r \<Longrightarrow>
     fst (verify_otp_and_login env (Call (Inr (email, otp))) s) = otp_verified"
  by (simp add: verify_otp_and_login_def Let_def)

lemma verify_not_found:
  "select_otp (otp_select_fails env) email otp (server_now env) s = None \<Longrightarrow>
     verify_otp_and_login env (Call (Inr (email, otp))) s = (invalid_or_expired, s)"
  by (simp add: verify_otp_and_login_def)

lemma otp_verifications_after_verify:
  "select_otp (otp_select_fails env) email otp (server_now env) s = Some r \<Longrightarrow>
     otp_verifications (snd (verify_otp_and_login env (Call (Inr (email, otp))) s))
       = otp_verifications (mark_verified (otp_update_fails env) (otp_id r) s)"
  by (simp add: verify_otp_and_login_def Let_def updateUserById_def createUser_def
      split: option.splits)

lemma sendOtp_inserts:
  assumes "\<not> otp_insert_fails env"
  shows "\<exists>password. otp_verifications (snd (sendOtp env email s))
           = otp_verifications s @ [issued_row env email password]"
  using assms
  by (auto simp: sendOtp_def Let_def insert_otp_def insert_credential_def send_otp_email_def
      issued_row_def split: option.splits sum.splits)

lemma select_otp_expired:
  assumes "\<forall>r \<in> set (otp_verifications s).
             otp_email r = email \<and> otp_code r = otp \<and> \<not> verified r \<longrightarrow> expires_at r \<le> now"
  shows "select_otp fails email otp now s = None"
  using assms by (fastforce simp: select_otp_None_iff otp_matches_def)

lemma select_otp_live:
  assumes "\<exists>r \<in> set (otp_verifications s). otp_matches email otp now r"
  shows "\<exists>r. select_otp False email otp now s = Some r"
proof (cases "select_otp False email otp now s")
  case None
  with assms show ?thesis by (simp add: select_otp_None_iff)
next
  case (Some r)
  then show ?thesis by blast
qed

lemma latest_greatest:
  "latest rs = Some r \<Longrightarrow> r' \<in> set rs \<Longrightarrow> created_at r' \<le> created_at r"
proof (induction rs arbitrary: r)
  case Nil
  then show ?case by simp
next
  case (Cons a rs)
  show ?case
  proof (cases "latest rs")
    case None
    then have "rs = []" by (simp add: latest_eq_None)
    with Cons.prems show ?thesis by simp
  next
    case (Some b)
    have b: "created_at r' \<le> created_at b" if "r' \<in> set rs"
      using Cons.IH[OF Some that] .
    show ?thesis
    proof (cases "created_at a \<le> created_at b")
      case True
      with Cons.prems(1) Some have "r = b" by simp
      with True b Cons.prems(2) show ?thesis by auto
    next
      case False
      with Cons.prems(1) Some have "r = a" by simp
      with False b Cons.prems(2) show ?thesis by force
    qed
  qed
qed

lemma select_otp_greatest:
  assumes "select_otp fails email otp now s = Some r"
    and "r' \<in> set (otp_verifications s)" "otp_matches email otp now r'"
  shows "created_at r' \<le> created_at r"
proof -
  from assms(1) have "latest (filter (otp_matches email otp now) (otp_verifications s)) = Some r"
    by (auto simp: select_otp_def split: if_splits)
  then show ?thesis
    by (rule latest_greatest) (use assms(2,3) in simp)
qed

lemma select_otp_after_mark:
  assumes only: "\<forall>r' \<in> set (otp_verifications s).
                   otp_matches email otp now r' \<longrightarrow> otp_id r' = rid"
    and later: "now \<le> now'"
  shows "select_otp fails email otp now' (mark_verified False rid s) = None"
proof -
  have "\<not> otp_matches email otp now' r'"
    if "r' \<in> set (otp_verifications (mark_verified False rid s))" for r'
  proof
    assume m: "otp_matches email otp now' r'"
    from that obtain r0 where r0: "r0 \<in> set (otp_verifications s)"
      and r': "r' = (if otp_id r0 = rid then r0\<lparr>verified := True\<rparr> else r0)"
      by (auto simp: mark_verified_def)
    show False
    proof (cases "otp_id r0 = rid")
      case True
      with r' m show False by (simp add: otp_matches_def)
    next
      case False
      with r' m later have "otp_matches email otp now r0" by (simp add: otp_matches_def)
      with only r0 False show False by blast
    qed
  qed
  then show ?thesis by (simp add: select_otp_None_iff)
qed

lemma one_request_eq:
  "one_request = empty_backend\<lparr>otp_verifications := [code_row 1 0],
      user_credentials := [\<lparr>cred_email = alice, password_hash = js ''pw''\<rparr>],
      sent_mail := [(alice, js ''550000'')]\<rparr>"
  by (simp add: one_request_def sendOtp_def Let_def request_at_def generate_otp_half
      select_credential_def insert_otp_def insert_credential_def send_otp_email_def
      empty_backend_def code_row_def)

lemma pw_nonempty: "js ''pw'' \<noteq> []"
  by (simp add: js_def)

lemma two_requests_eq:
  "two_requests = empty_backend\<lparr>otp_verifications := [code_row 1 0, code_row 2 300000],
      user_credentials := [\<lparr>cred_email = alice, password_hash = js ''pw''\<rparr>],
      sent_mail := [(alice, js ''550000''), (alice, js ''550000'')]\<rparr>"
  by (simp add: two_requests_def one_request_eq sendOtp_def Let_def request_at_def
      generate_otp_half select_credential_def insert_otp_def insert_credential_def
      send_otp_email_def empty_backend_def code_row_def pw_nonempty)

lemma select_one_request:
  "select_otp False alice (js ''550000'') 100000 one_request = Some (code_row 1 0)"
  by (simp add: one_request_eq select_otp_def otp_matches_def code_row_def empty_backend_def)

text \<open>
  C5, as the code has it. \<open>sendOtp\<close> adds one row whose \<open>expires_at\<close> is
  \<^verbatim>\<open>Date.now()\<close> plus 600000 ms and whose \<open>verified\<close> is false. A verification
  fails with "Invalid or expired OTP", leaving the tables as they are, when every
  stored unverified row with the submitted email and code has expired at the server's
  time of the call (\<open>expires_at \<le> server_now\<close>). It succeeds when the query does not
  fail and some stored row with the submitted email and code is unverified and not
  expired, whatever other rows with that email and code have expired. The row a query
  selects is never an expired one.
\<close>

theorem otp_expiry:
  "(\<not> otp_insert_fails env \<longrightarrow>
      (\<exists>row. otp_verifications (snd (sendOtp env email s)) = otp_verifications s @ [row] \<and>
             otp_email row = email \<and> otp_code row = generate_otp (otp_random env) \<and>
             expires_at row = client_now env + 600000 \<and> verified row = False)) \<and>
   ((\<forall>r \<in> set (otp_verifications s).
        otp_email r = email \<and> otp_code r = otp \<and> \<not> verified r
          \<longrightarrow> expires_at r \<le> server_now venv)
      \<longrightarrow> verify_otp_and_login venv (Call (Inr (email, otp))) s = (invalid_or_expired, s)) \<and>
   (\<not> otp_select_fails venv \<and>
    (\<exists>r \<in> set (otp_verifications s).
        otp_email r = email \<and> otp_code r = otp \<and> \<not> verified r \<and> server_now venv < expires_at r)
      \<longrightarrow> fst (verify_otp_and_login venv (Call (Inr (email, otp))) s) = otp_verified) \<and>
   (select_otp fails email otp now s = Some r \<longrightarrow> now < expires_at r)"
proof (intro conjI impI)
  assume "\<not> otp_insert_fails env"
  from sendOtp_inserts[OF this, of email s] obtain password where
    "otp_verifications (snd (sendOtp env email s))
       = otp_verifications s @ [issued_row env email password]" by blast
  then show "\<exists>row. otp_verifications (snd (sendOtp env email s)) = otp_verifications s @ [row] \<and>
             otp_email row = email \<and> otp_code row = generate_otp (otp_random env) \<and>
             expires_at row = client_now env + 600000 \<and> verified row = False"
    by (simp add: issued_row_def)
next
  assume "\<forall>r \<in> set (otp_verifications s).
        otp_email r = email \<and> otp_code r = otp \<and> \<not> verified r
          \<longrightarrow> expires_at r \<le> server_now venv"
  then have "select_otp (otp_select_fails venv) email otp (server_now venv) s = None"
    by (rule select_otp_expired)
  then show "verify_otp_and_login venv (Call (Inr (email, otp))) s = (invalid_or_expired, s)"
    by (rule verify_not_found)
next
  assume live: "\<not> otp_select_fails venv \<and>
    (\<exists>r \<in> set (otp_verifications s).
        otp_email r = email \<and> otp_code r = otp \<and> \<not> verified r \<and> server_now venv < expires_at r)"
  then have "\<exists>r \<in> set (otp_verifications s). otp_matches email otp (server_now venv) r"
    by (simp add: otp_matches_def)
  from select_otp_live[OF this] live
  obtain r where "select_otp (otp_select_fails venv) email otp (server_now venv) s = Some r"
    by auto
  then show "fst (verify_otp_and_login venv (Call (Inr (email, otp))) s) = otp_verified"
    by (rule verify_found)
next
  assume "select_otp fails email otp now s = Some r"
  from select_otp_SomeD(2)[OF this] show "now < expires_at r"
    by (simp add: otp_matches_def)
qed

theorem otp_expiry_witness:
  "\<not> otp_insert_fails (request_at 300000 2) \<and>
   (\<exists>row. otp_verifications (snd (sendOtp (request_at 300000 2) alice one_request))
            = otp_verifications one_request @ [row] \<and>
          expires_at row = 900000 \<and> verified row = False) \<and>
   otp_verifications one_request = [code_row 1 0] \<and>
   expires_at (code_row 1 0) \<le> server_now (verify_at 700000) \<and>
   verify_otp_and_login (verify_at 700000) (Call (Inr (alice, js ''550000''))) one_request
     = (invalid_or_expired, one_request) \<and>
   \<not> otp_select_fails (verify_at 100000) \<and>
   otp_email (code_row 1 0) = alice \<and> otp_code (code_row 1 0) = js ''550000'' \<and>
   \<not> verified (code_row 1 0) \<and> server_now (verify_at 100000) < expires_at (code_row 1 0) \<and>
   fst (verify_otp_and_login (verify_at 100000) (Call (Inr (alice, js ''550000''))) one_request)
     = otp_verified \<and>
   select_otp False alice (js ''550000'') 100000 one_request = Some (code_row 1 0) \<and>
   (100000::int) < expires_at (code_row 1 0)"
proof -
  note inst = otp_expiry[of "request_at 300000 2" alice one_request "js ''550000''"
      "verify_at 700000" False 100000 "code_row 1 0"]
  note inst' = otp_expiry[of "request_at 300000 2" alice one_request "js ''550000''"
      "verify_at 100000" False 100000 "code_row 1 0"]
  have h1: "\<not> otp_insert_fails (request_at 300000 2)"
    by (simp add: request_at_def)
  have rows: "otp_verifications one_request = [code_row 1 0]"
    by (simp add: one_request_eq)
  have exp: "expires_at (code_row 1 0) \<le> server_now (verify_at 700000)"
    by (simp add: code_row_def verify_at_def)
  then have h2: "\<forall>r \<in> set (otp_verifications one_request).
      otp_email r = alice \<and> otp_code r = js ''550000'' \<and> \<not> verified r
        \<longrightarrow> expires_at r \<le> server_now (verify_at 700000)"
    by (simp add: rows)
  have h3: "\<not> otp_select_fails (verify_at 100000)"
    by (simp add: verify_at_def)
  have live: "otp_email (code_row 1 0) = alice" "otp_code (code_row 1 0) = js ''550000''"
    "\<not> verified (code_row 1 0)" "server_now (verify_at 100000) < expires_at (code_row 1 0)"
    by (simp_all add: code_row_def verify_at_def)
  then have h4: "\<exists>r \<in> set (otp_verifications one_request).
      otp_email r = alice \<and> otp_code r = js ''550000'' \<and> \<not> verified r \<and>
      server_now (verify_at 100000) < expires_at r"
    by (simp add: rows)
  from inst' h3 h4 have c4: "fst (verify_otp_and_login (verify_at 100000)
      (Call (Inr (alice, js ''550000''))) one_request) = otp_verified"
    by blast
  from inst h1 have "\<exists>row. otp_verifications (snd (sendOtp (request_at 300000 2) alice one_request))
            = otp_verifications one_request @ [row] \<and>
          expires_at row = client_now (request_at 300000 2) + 600000 \<and> verified row = False"
    by blast
  then have c1: "\<exists>row. otp_verifications (snd (sendOtp (request_at 300000 2) alice one_request))
            = otp_verifications one_request @ [row] \<and>
          expires_at row = 900000 \<and> verified row = False"
    by (simp add: request_at_def)
  from inst h2 have c2: "verify_otp_and_login (verify_at 700000)
      (Call (Inr (alice, js ''550000''))) one_request = (invalid_or_expired, one_request)"
    by blast
  from inst select_one_request have c3: "(100000::int) < expires_at (code_row 1 0)"
    by blast
  from h1 c1 rows exp c2 h3 live c4 select_one_request c3 show ?thesis by blast
qed

theorem otp_expiry_counterexample:
  "two_requests = snd (sendOtp (request_at 300000 2) alice
                    (snd (sendOtp (request_at 0 1) alice empty_backend))) \<and>
   otp_verifications two_requests = [code_row 1 0, code_row 2 300000] \<and>
   otp_email (code_row 1 0) = alice \<and> otp_code (code_row 1 0) = js ''550000'' \<and>
   expires_at (code_row 1 0) < server_now (verify_at 700000) \<and>
   fst (verify_otp_and_login (verify_at 700000) (Call (Inr (alice, js ''550000''))) two_requests)
     = otp_verified"
proof -
  have "select_otp False alice (js ''550000'') 700000 two_requests = Some (code_row 2 300000)"
    by (simp add: two_requests_eq select_otp_def otp_matches_def code_row_def empty_backend_def)
  then have "fst (verify_otp_and_login (verify_at 700000) (Call (Inr (alice, js ''550000'')))
      two_requests) = otp_verified"
    by (intro verify_found) (simp add: verify_at_def)
  moreover have "two_requests = snd (sendOtp (request_at 300000 2) alice
                    (snd (sendOtp (request_at 0 1) alice empty_backend)))"
    by (simp add: two_requests_def one_request_def)
  moreover have "otp_verifications two_requests = [code_row 1 0, code_row 2 300000]"
    by (simp add: two_requests_eq)
  moreover have "otp_email (code_row 1 0) = alice" "otp_code (code_row 1 0) = js ''550000''"
    "expires_at (code_row 1 0) < server_now (verify_at 700000)"
    by (simp_all add: code_row_def verify_at_def)
  ultimately show ?thesis by blast
qed

text \<open>
  C6, as the code has it. When the first call finds a row and its update is applied,
  the first call succeeds, and the second call fails with "Invalid or expired OTP"
  provided that no other row matching the email and the code is live (all matching
  rows carry the id of the row found) and that the second call is not earlier than
  the first. The row found is a stored row that matches, created no earlier than any
  other stored row that matches; after the first call the stored rows are those from
  before, with \<open>verified\<close> set on the rows that carry the id of the row found (the id
  is the primary key of the table) and nothing else changed.
\<close>

theorem otp_single_use:
  assumes found: "select_otp (otp_select_fails env1) email otp (server_now env1) s = Some r"
    and updated: "\<not> otp_update_fails env1"
  shows "fst (verify_otp_and_login env1 (Call (Inr (email, otp))) s) = otp_verified \<and>
         ((\<forall>r' \<in> set (otp_verifications s).
              otp_matches email otp (server_now env1) r' \<longrightarrow> otp_id r' = otp_id r) \<and>
          server_now env1 \<le> server_now env2
            \<longrightarrow> fst (verify_otp_and_login env2 (Call (Inr (email, otp)))
                       (snd (verify_otp_and_login env1 (Call (Inr (email, otp))) s)))
                  = invalid_or_expired) \<and>
         r \<in> set (otp_verifications s) \<and> otp_matches email otp (server_now env1) r \<and>
         (\<forall>r' \<in> set (otp_verifications s).
              otp_matches email otp (server_now env1) r' \<longrightarrow> created_at r' \<le> created_at r) \<and>
         otp_verifications (snd (verify_otp_and_login env1 (Call (Inr (email, otp))) s))
           = map (\<lambda>r'. if otp_id r' = otp_id r then r'\<lparr>verified := True\<rparr> else r')
               (otp_verifications s)"
proof -
  let ?s1 = "snd (verify_otp_and_login env1 (Call (Inr (email, otp))) s)"
  have rows: "otp_verifications ?s1 = otp_verifications (mark_verified False (otp_id r) s)"
    using otp_verifications_after_verify[OF found] updated by simp
  have c1: "fst (verify_otp_and_login env1 (Call (Inr (email, otp))) s) = otp_verified"
    using found by (rule verify_found)
  have c2: "fst (verify_otp_and_login env2 (Call (Inr (email, otp))) ?s1) = invalid_or_expired"
    if only: "\<forall>r' \<in> set (otp_verifications s).
                otp_matches email otp (server_now env1) r' \<longrightarrow> otp_id r' = otp_id r"
      and later: "server_now env1 \<le> server_now env2"
  proof -
    have "select_otp (otp_select_fails env2) email otp (server_now env2)
            (mark_verified False (otp_id r) s) = None"
      using only later by (rule select_otp_after_mark)
    then have "select_otp (otp_select_fails env2) email otp (server_now env2) ?s1 = None"
      using rows by (simp add: select_otp_def split: if_splits)
    from verify_not_found[OF this] show ?thesis by simp
  qed
  have c3: "r \<in> set (otp_verifications s)" "otp_matches email otp (server_now env1) r"
    using select_otp_SomeD(1,2)[OF found] .
  have c4: "\<forall>r' \<in> set (otp_verifications s).
              otp_matches email otp (server_now env1) r' \<longrightarrow> created_at r' \<le> created_at r"
    using select_otp_greatest[OF found] by blast
  have c5: "otp_verifications ?s1
      = map (\<lambda>r'. if otp_id r' = otp_id r then r'\<lparr>verified := True\<rparr> else r')
          (otp_verifications s)"
    using rows by (simp add: mark_verified_def)
  from c1 c2 c3 c4 c5 show ?thesis by blast
qed

theorem otp_single_use_witness:
  "select_otp (otp_select_fails (verify_at 100000)) alice (js ''550000'')
     (server_now (verify_at 100000)) one_request = Some (code_row 1 0) \<and>
   \<not> otp_update_fails (verify_at 100000) \<and>
   otp_verifications one_request = [code_row 1 0] \<and>
   server_now (verify_at 100000) \<le> server_now (verify_at 100001) \<and>
   fst (verify_otp_and_login (verify_at 100000) (Call (Inr (alice, js ''550000''))) one_request)
     = otp_verified \<and>
   fst (verify_otp_and_login (verify_at 100001) (Call (Inr (alice, js ''550000'')))
          (snd (verify_otp_and_login (verify_at 100000) (Call (Inr (alice, js ''550000'')))
                 one_request)))
     = invalid_or_expired \<and>
   otp_verifications (snd (verify_otp_and_login (verify_at 100000)
       (Call (Inr (alice, js ''550000''))) one_request))
     = [(code_row 1 0)\<lparr>verified := True\<rparr>]"
proof -
  have found: "select_otp (otp_select_fails (verify_at 100000)) alice (js ''550000'')
     (server_now (verify_at 100000)) one_request = Some (code_row 1 0)"
    using select_one_request by (simp add: verify_at_def)
  have upd: "\<not> otp_update_fails (verify_at 100000)"
    by (simp add: verify_at_def)
  have rows: "otp_verifications one_request = [code_row 1 0]"
    by (simp add: one_request_eq)
  then have only: "\<forall>r' \<in> set (otp_verifications one_request).
      otp_matches alice (js ''550000'') (server_now (verify_at 100000)) r'
        \<longrightarrow> otp_id r' = otp_id (code_row 1 0)"
    by simp
  have later: "server_now (verify_at 100000) \<le> server_now (verify_at 100001)"
    by (simp add: verify_at_def)
  note inst = otp_single_use[OF found upd, of "verify_at 100001"]
  from inst have c1: "fst (verify_otp_and_login (verify_at 100000)
      (Call (Inr (alice, js ''550000''))) one_request) = otp_verified"
    by blast
  from inst only later have c2: "fst (verify_otp_and_login (verify_at 100001)
      (Call (Inr (alice, js ''550000'')))
        (snd (verify_otp_and_login (verify_at 100000) (Call (Inr (alice, js ''550000'')))
               one_request))) = invalid_or_expired"
    by blast
  from inst have "otp_verifications (snd (verify_otp_and_login (verify_at 100000)
       (Call (Inr (alice, js ''550000''))) one_request))
     = map (\<lambda>r'. if otp_id r' = otp_id (code_row 1 0) then r'\<lparr>verified := True\<rparr> else r')
         (otp_verifications one_request)"
    by blast
  then have c3: "otp_verifications (snd (verify_otp_and_login (verify_at 100000)
       (Call (Inr (alice, js ''550000''))) one_request))
     = [(code_row 1 0)\<lparr>verified := True\<rparr>]"
    by (simp add: rows)
  from found upd rows later c1 c2 c3 show ?thesis by blast
qed

text \<open>
  Two requests for the same email, five minutes apart, that draw the same code leave
  two live rows with that code. The first verification marks the row created last and
  leaves the other as it was; the second verification finds that other row and
  succeeds as well.
\<close>

theorem otp_single_use_counterexample:
  "two_requests = snd (sendOtp (request_at 300000 2) alice
                    (snd (sendOtp (request_at 0 1) alice empty_backend))) \<and>
   otp_verifications two_requests = [code_row 1 0, code_row 2 300000] \<and>
   otp_matches alice (js ''550000'') 400000 (code_row 1 0) \<and>
   otp_matches alice (js ''550000'') 400000 (code_row 2 300000) \<and>
   fst (verify_otp_and_login (verify_at 400000) (Call (Inr (alice, js ''550000''))) two_requests)
     = otp_verified \<and>
   otp_verifications (snd (verify_otp_and_login (verify_at 400000)
       (Call (Inr (alice, js ''550000''))) two_requests))
     = [code_row 1 0, (code_row 2 300000)\<lparr>verified := True\<rparr>] \<and>
   fst (verify_otp_and_login (verify_at 400001) (Call (Inr (alice, js ''550000'')))
          (snd (verify_otp_and_login (verify_at 400000) (Call (Inr (alice, js ''550000'')))
                 two_requests)))
     = otp_verified"
proof -
  let ?call = "Call (Inr (alice, js ''550000''))"
  let ?s1 = "snd (verify_otp_and_login (verify_at 400000) ?call two_requests)"
  have built: "two_requests = snd (sendOtp (request_at 300000 2) alice
                    (snd (sendOtp (request_at 0 1) alice empty_backend)))"
    by (simp add: two_requests_def one_request_def)
  have rows: "otp_verifications two_requests = [code_row 1 0, code_row 2 300000]"
    by (simp add: two_requests_eq)
  have m: "otp_matches alice (js ''550000'') 400000 (code_row 1 0)"
    "otp_matches alice (js ''550000'') 400000 (code_row 2 300000)"
    by (simp_all add: otp_matches_def code_row_def)
  have first: "select_otp (otp_select_fails (verify_at 400000)) alice (js ''550000'')
      (server_now (verify_at 400000)) two_requests = Some (code_row 2 300000)"
    by (simp add: select_otp_def rows verify_at_def otp_matches_def code_row_def)
  have "otp_verifications ?s1
      = otp_verifications (mark_verified False (otp_id (code_row 2 300000)) two_requests)"
    using otp_verifications_after_verify[OF first] by (simp add: verify_at_def)
  then have rows1: "otp_verifications ?s1 = [code_row 1 0, (code_row 2 300000)\<lparr>verified := True\<rparr>]"
    by (simp add: mark_verified_def rows code_row_def)
  have "select_otp False alice (js ''550000'') 400001 ?s1 = Some (code_row 1 0)"
    unfolding select_otp_def rows1 by (simp add: otp_matches_def code_row_def)
  then have second: "select_otp (otp_select_fails (verify_at 400001)) alice (js ''550000'')
      (server_now (verify_at 400001)) ?s1 = Some (code_row 1 0)"
    by (simp add: verify_at_def)
  from verify_found[OF first] verify_found[OF second] built rows m rows1 show ?thesis by blast
qed

text \<open>
  C8. Once the query of \<open>verify_otp_and_login\<close> has found a row, the response is the
  success response, whatever the outcome of marking the row verified, of reading the
  credential and of updating or creating the account: none of them is looked at. When
  all of them fail, the services are left exactly as they were and the caller is still
  told that the code was verified.
\<close>

theorem verify_success_unconditional:
  assumes "select_otp (otp_select_fails env) email otp (server_now env) s = Some r"
  shows "fst (verify_otp_and_login env (Call (Inr (email, otp))) s) = otp_verified \<and>
         (otp_update_fails env \<and> list_users_fails env \<and> create_user_fails env
            \<longrightarrow> snd (verify_otp_and_login env (Call (Inr (email, otp))) s) = s)"
  using assms
  by (simp add: verify_otp_and_login_def Let_def mark_verified_def listUsers_def createUser_def)

theorem verify_success_unconditional_witness:
  "select_otp (otp_select_fails failing_verify) alice (js ''550000'')
     (server_now failing_verify) one_request = Some (code_row 1 0) \<and>
   otp_update_fails failing_verify \<and> list_users_fails failing_verify \<and>
   create_user_fails failing_verify \<and>
   verify_otp_and_login failing_verify (Call (Inr (alice, js ''550000''))) one_request
     = (otp_verified, one_request)"
proof -
  have found: "select_otp (otp_select_fails failing_verify) alice (js ''550000'')
     (server_now failing_verify) one_request = Some (code_row 1 0)"
    using select_one_request by (simp add: failing_verify_def)
  have f: "otp_update_fails failing_verify" "list_users_fails failing_verify"
    "create_user_fails failing_verify"
    by (simp_all add: failing_verify_def)
  from verify_success_unconditional[OF found] f
  have "verify_otp_and_login failing_verify (Call (Inr (alice, js ''550000''))) one_request
     = (otp_verified, one_request)"
    by (simp add: prod_eq_iff)
  with found f show ?thesis by blast
qed

text \<open>
  C9. \<open>sendOtp\<close> writes before it sends. When the credential query and both inserts
  go through and the dispatch of the mail fails, \<open>sendOtp\<close> returns the dispatch
  error, and yet the new row is in
  \<open>otp_verifications\<close> (and, for an email without a credential, the new credential
  is in \<open>user_credentials\<close>); nothing is rolled back and no mail is recorded. The
  code of that row verifies successfully at any time before its expiry.
\<close>

theorem failed_dispatch_keeps_otp:
  assumes "\<not> send_cred_select_fails env" "\<not> otp_insert_fails env" "\<not> cred_insert_fails env"
    and "send_email_fails env"
  shows "fst (sendOtp env email s) = Some FunctionsError \<and>
         (\<exists>password. otp_verifications (snd (sendOtp env email s))
            = otp_verifications s @ [issued_row env email password]) \<and>
         (email \<notin> cred_email ` set (user_credentials s) \<longrightarrow>
            user_credentials (snd (sendOtp env email s)) = user_credentials s @
              [\<lparr>cred_email = email, password_hash = generated_password env\<rparr>]) \<and>
         (email \<in> cred_email ` set (user_credentials s) \<longrightarrow>
            user_credentials (snd (sendOtp env email s)) = user_credentials s) \<and>
         sent_mail (snd (sendOtp env email s)) = sent_mail s \<and>
         (\<forall>venv. \<not> otp_select_fails venv \<and> server_now venv < client_now env + 600000 \<longrightarrow>
            fst (verify_otp_and_login venv
                   (Call (Inr (email, generate_otp (otp_random env)))) (snd (sendOtp env email s)))
              = otp_verified)"
proof -
  let ?s' = "snd (sendOtp env email s)"
  let ?code = "generate_otp (otp_random env)"
  have cred: "select_credential False email s = None \<longleftrightarrow> email \<notin> cred_email ` set (user_credentials s)"
    by (auto simp: select_credential_def find_None_iff)
  have res: "fst (sendOtp env email s) = Some FunctionsError"
    using assms cred
    by (auto simp: sendOtp_def Let_def insert_otp_def insert_credential_def send_otp_email_def
        split: option.splits)
  have creds1: "email \<notin> cred_email ` set (user_credentials s) \<Longrightarrow>
      user_credentials ?s' = user_credentials s @
        [\<lparr>cred_email = email, password_hash = generated_password env\<rparr>]"
    using assms cred
    by (auto simp: sendOtp_def Let_def insert_otp_def insert_credential_def send_otp_email_def
        split: option.splits)
  have creds2: "email \<in> cred_email ` set (user_credentials s) \<Longrightarrow>
      user_credentials ?s' = user_credentials s"
    using assms cred
    by (auto simp: sendOtp_def Let_def insert_otp_def insert_credential_def send_otp_email_def
        split: option.splits)
  have mail: "sent_mail ?s' = sent_mail s"
    using assms cred
    by (auto simp: sendOtp_def Let_def insert_otp_def insert_credential_def send_otp_email_def
        split: option.splits)
  from sendOtp_inserts[OF assms(2), of email s] obtain password where
    rows: "otp_verifications ?s' = otp_verifications s @ [issued_row env email password]"
    by blast
  have live: "fst (verify_otp_and_login venv (Call (Inr (email, ?code))) ?s') = otp_verified"
    if "\<not> otp_select_fails venv" "server_now venv < client_now env + 600000" for venv
  proof -
    have "otp_matches email ?code (server_now venv) (issued_row env email password)"
      using that(2) by (simp add: otp_matches_def issued_row_def)
    then have "select_otp (otp_select_fails venv) email ?code (server_now venv) ?s' \<noteq> None"
      using that(1) rows by (auto simp: select_otp_None_iff)
    then obtain r where
      "select_otp (otp_select_fails venv) email ?code (server_now venv) ?s' = Some r" by blast
    then show ?thesis by (rule verify_found)
  qed
  from res rows creds1 creds2 mail live show ?thesis by blast
qed

theorem failed_dispatch_keeps_otp_witness:
  "\<not> send_cred_select_fails undelivered \<and> \<not> otp_insert_fails undelivered \<and>
   \<not> cred_insert_fails undelivered \<and> send_email_fails undelivered \<and>
   fst (sendOtp undelivered alice empty_backend) = Some FunctionsError \<and>
   otp_verifications (snd (sendOtp undelivered alice empty_backend)) = [code_row 1 0] \<and>
   user_credentials (snd (sendOtp undelivered alice empty_backend))
     = [\<lparr>cred_email = alice, password_hash = js ''pw''\<rparr>] \<and>
   sent_mail (snd (sendOtp undelivered alice empty_backend)) = [] \<and>
   fst (verify_otp_and_login (verify_at 100000) (Call (Inr (alice, js ''550000'')))
          (snd (sendOtp undelivered alice empty_backend))) = otp_verified"
proof -
  have h: "\<not> send_cred_select_fails undelivered" "\<not> otp_insert_fails undelivered"
    "\<not> cred_insert_fails undelivered" "send_email_fails undelivered"
    by (simp_all add: undelivered_def request_at_def)
  note inst = failed_dispatch_keeps_otp[OF h, of alice empty_backend]
  have new: "alice \<notin> cred_email ` set (user_credentials empty_backend)"
    by (simp add: empty_backend_def)
  have v: "\<not> otp_select_fails (verify_at 100000)"
    "server_now (verify_at 100000) < client_now undelivered + 600000"
    by (simp_all add: verify_at_def undelivered_def request_at_def)
  have code: "generate_otp (otp_random undelivered) = js ''550000''"
    by (simp add: undelivered_def request_at_def generate_otp_half)
  from inst have c1: "fst (sendOtp undelivered alice empty_backend) = Some FunctionsError"
    by blast
  from inst obtain password where
    "otp_verifications (snd (sendOtp undelivered alice empty_backend))
       = otp_verifications empty_backend @ [issued_row undelivered alice password]"
    by blast
  moreover from inst new have c3: "user_credentials (snd (sendOtp undelivered alice empty_backend))
     = user_credentials empty_backend @
         [\<lparr>cred_email = alice, password_hash = generated_password undelivered\<rparr>]"
    by blast
  ultimately have c2: "otp_verifications (snd (sendOtp undelivered alice empty_backend)) = [code_row 1 0]"
    by (simp add: sendOtp_def Let_def undelivered_def request_at_def generate_otp_half
      select_credential_def insert_otp_def insert_credential_def send_otp_email_def
      empty_backend_def code_row_def)
  from c3 have c3': "user_credentials (snd (sendOtp undelivered alice empty_backend))
     = [\<lparr>cred_email = alice, password_hash = js ''pw''\<rparr>]"
    by (simp add: empty_backend_def undelivered_def request_at_def)
  from inst have "sent_mail (snd (sendOtp undelivered alice empty_backend)) = sent_mail empty_backend"
    by blast
  then have c4: "sent_mail (snd (sendOtp undelivered alice empty_backend)) = []"
    by (simp add: empty_backend_def)
  from inst v have "fst (verify_otp_and_login (verify_at 100000)
          (Call (Inr (alice, generate_otp (otp_random undelivered))))
          (snd (sendOtp undelivered alice empty_backend))) = otp_verified"
    by blast
  then have c5: "fst (verify_otp_and_login (verify_at 100000) (Call (Inr (alice, js ''550000'')))
          (snd (sendOtp undelivered alice empty_backend))) = otp_verified"
    by (simp only: code)
  from h c1 c2 c3' c4 c5 show ?thesis by blast
qed

end
